theory Spec2Isabelle
  imports Main "HOL-Library.Char_ord" "HOL-Library.List_Lexorder"
begin

section \<open>ElasticETL: a shallow embedding of the data-shaping core\<close>

text \<open>
  Go strings are byte sequences and are modelled as \<open>string\<close> (a list of 8-bit
  characters). A Go \<open>map[string]T\<close> whose iteration order can be observed is an
  association list: the order of the list is the order in which one \<open>range\<close>
  loop happens to visit the keys. A run-time panic is a value of type \<open>panic\<close>
  on the left of a sum.
\<close>

datatype panic = SliceBoundsOutOfRange | IndexOutOfRange | MakeSliceCapOutOfRange

subsection \<open>History store (transformer.go: storePreviousResults, UpdateConfig)\<close>

text \<open>\<open>config.TransformConfig\<close>: the fields read by the functions embedded here.
  \<open>PreviousResultsSets\<close> is a Go \<open>int\<close>; the configuration loader does not
  reject a negative value.\<close>

record TransformConfig =
  Stateless :: bool
  PreviousResultsSets :: int
  OutputFormat :: string

record 'r Transformer =
  config :: TransformConfig
  previousResults :: "'r list list"

text \<open>Go's \<open>s[low:]\<close>: panics unless \<open>0 \<le> low \<le> len(s)\<close>.\<close>

definition slice_from :: "'a list \<Rightarrow> int \<Rightarrow> panic + 'a list" where
  "slice_from s low =
     (if 0 \<le> low \<and> low \<le> int (length s) then Inr (drop (nat low) s)
      else Inl SliceBoundsOutOfRange)"

text \<open>\<open>NewTransformer\<close>: \<open>make\<close> with a negative capacity panics.\<close>

definition NewTransformer :: "TransformConfig \<Rightarrow> panic + 'r Transformer" where
  "NewTransformer cfg =
     (if PreviousResultsSets cfg < 0 then Inl MakeSliceCapOutOfRange
      else Inr \<lparr>config = cfg, previousResults = []\<rparr>)"

definition storePreviousResults :: "'r Transformer \<Rightarrow> 'r list \<Rightarrow> panic + 'r Transformer" where
  "storePreviousResults t results =
     (let prev = previousResults t @ [results] in
      if int (length prev) > PreviousResultsSets (config t)
      then (case slice_from prev (int (length prev) - PreviousResultsSets (config t)) of
              Inl e \<Rightarrow> Inl e
            | Inr kept \<Rightarrow> Inr (t\<lparr>previousResults := kept\<rparr>))
      else Inr (t\<lparr>previousResults := prev\<rparr>))"

definition UpdateConfig :: "'r Transformer \<Rightarrow> TransformConfig \<Rightarrow> panic + 'r Transformer" where
  "UpdateConfig t cfg =
     (let t1 = t\<lparr>config := cfg\<rparr> in
      if int (length (previousResults t1)) > PreviousResultsSets cfg
      then (case slice_from (previousResults t1)
                   (int (length (previousResults t1)) - PreviousResultsSets cfg) of
              Inl e \<Rightarrow> Inl e
            | Inr kept \<Rightarrow> Inr (t1\<lparr>previousResults := kept\<rparr>))
      else Inr t1)"

subsection \<open>Library primitives on strings\<close>

definition digit :: "char \<Rightarrow> bool" where
  "digit c = (c \<in> set ''0123456789'')"

definition decimal :: "string \<Rightarrow> int" where
  "decimal ds = foldl (\<lambda>a c. 10 * a + (of_char c - 48)) 0 ds"

text \<open>\<open>strconv.ParseInt(s, 10, 64)\<close>: an optional sign, then one or more decimal
  digits, the value within the range of \<open>int64\<close>; \<open>None\<close> is the error return.
  \<open>strconv.Atoi\<close> is the same function where \<open>int\<close> has 64 bits.\<close>

definition ParseInt :: "string \<Rightarrow> int option" where
  "ParseInt s =
     (let neg = (s \<noteq> [] \<and> hd s = CHR ''-'');
          ds = (if s \<noteq> [] \<and> (hd s = CHR ''-'' \<or> hd s = CHR ''+'') then tl s else s)
      in if ds = [] \<or> \<not> list_all digit ds then None
         else if neg then (if decimal ds \<le> 2 ^ 63 then Some (- decimal ds) else None)
         else (if decimal ds < 2 ^ 63 then Some (decimal ds) else None))"

definition Atoi :: "string \<Rightarrow> int option" where
  "Atoi s = ParseInt s"

text \<open>\<open>fmt.Sprintf("%d", n)\<close>.\<close>

function show_digits :: "int \<Rightarrow> string" where
  "show_digits n =
     (if n < 10 then [char_of (48 + n)]
      else show_digits (n div 10) @ [char_of (48 + n mod 10)])"
  by pat_completeness auto
termination
  by (relation "measure nat") auto

declare show_digits.simps [simp del]

definition show_nat :: "nat \<Rightarrow> string" where
  "show_nat n = show_digits (int n)"

definition show_int :: "int \<Rightarrow> string" where
  "show_int i = (if i < 0 then CHR ''-'' # show_digits (- i) else show_digits i)"

text \<open>\<open>strings.HasPrefix\<close>, \<open>strings.Index\<close>, \<open>strings.LastIndex\<close>,
  \<open>strings.Contains\<close>; a position that does not exist is \<open>None\<close> (Go's \<open>-1\<close>).\<close>

definition HasPrefix :: "string \<Rightarrow> string \<Rightarrow> bool" where
  "HasPrefix s p = (take (length p) s = p)"

definition Index :: "string \<Rightarrow> string \<Rightarrow> nat option" where
  "Index s sub = find (\<lambda>i. HasPrefix (drop i s) sub) [0..<Suc (length s)]"

definition LastIndex :: "string \<Rightarrow> string \<Rightarrow> nat option" where
  "LastIndex s sub = find (\<lambda>i. HasPrefix (drop i s) sub) (rev [0..<Suc (length s)])"

definition Contains :: "string \<Rightarrow> string \<Rightarrow> bool" where
  "Contains s sub = (Index s sub \<noteq> None)"

text \<open>\<open>strings.Replace(s, old, new, 1)\<close>: the first occurrence only.\<close>

definition ReplaceFirst :: "string \<Rightarrow> string \<Rightarrow> string \<Rightarrow> string" where
  "ReplaceFirst s old new =
     (case Index s old of
        None \<Rightarrow> s
      | Some i \<Rightarrow> take i s @ new @ drop (i + length old) s)"

text \<open>The regular expression \<open>\[(\d+)\]\<close> anchored at the start of \<open>s\<close>: the digits
  of the group and the number of bytes matched. \<open>\d\<close> is an ASCII digit.\<close>

definition indexAt :: "string \<Rightarrow> (string \<times> nat) option" where
  "indexAt s =
     (case s of
        [] \<Rightarrow> None
      | c # r \<Rightarrow>
          if c = CHR ''[''
          then (let ds = takeWhile digit r; r' = dropWhile digit r in
                if ds \<noteq> [] \<and> r' \<noteq> [] \<and> hd r' = CHR '']''
                then Some (ds, length ds + 2) else None)
          else None)"

text \<open>The leftmost, non-overlapping matches of \<open>\[(\d+)\]\<close> in a string, as
  \<open>regexp.FindAllStringSubmatch\<close> and \<open>regexp.ReplaceAllString\<close> find them: a
  token is a byte outside every match (\<open>Inl\<close>) or the digits of one match
  (\<open>Inr\<close>).\<close>

function indexTokens :: "string \<Rightarrow> (char + string) list" where
  "indexTokens [] = []"
| "indexTokens (c # cs) =
     (case indexAt (c # cs) of
        Some m \<Rightarrow> Inr (fst m) # indexTokens (drop (snd m) (c # cs))
      | None \<Rightarrow> Inl c # indexTokens cs)"
  by pat_completeness auto
termination
  by (relation "measure length")
     (auto simp: indexAt_def Let_def split: if_splits)

subsection \<open>Columniser (transformer.go)\<close>

text \<open>A value of Go's \<open>interface{}\<close> as the flat map holds it. The type \<open>'f\<close>
  stands for \<open>float64\<close>; its formatting is a parameter of \<open>formatValue\<close>.\<close>

datatype 'f jvalue =
    JNull
  | JBool bool
  | JInt int
  | JFloat 'f
  | JString string
  | JArray "'f jvalue list"
  | JObject "(string \<times> 'f jvalue) list"

type_synonym 'f flatmap = "(string \<times> 'f jvalue) list"

definition calculateKeyDepth :: "string \<Rightarrow> nat" where
  "calculateKeyDepth key = 1 + length (filter (\<lambda>c. c = CHR ''.'') key)"

definition removeArrayIndices :: "string \<Rightarrow> string" where
  "removeArrayIndices key =
     concat (map (\<lambda>t. case t of Inl c \<Rightarrow> [c] | Inr ds \<Rightarrow> []) (indexTokens key))"

text \<open>\<open>analyzeUniqueKeys\<close>: \<open>allKeys\<close> and \<open>uniqueKeySet\<close> are Go maps used as
  sets, here duplicate-free lists; \<open>keysByDepth\<close> maps a depth to the keys of that
  depth.\<close>

definition analyzeUniqueKeys :: "'f flatmap list \<Rightarrow> string list" where
  "analyzeUniqueKeys results =
     (let allKeys = remdups (concat (map (map fst) results));
          keysByDepth = (\<lambda>d. filter (\<lambda>k. calculateKeyDepth k = d) allKeys);
          maxDepth = fold (\<lambda>k m. if calculateKeyDepth k > m then calculateKeyDepth k else m)
                          allKeys 0;
          uniqueKeySet =
            fold (\<lambda>depth s. fold (\<lambda>key s. List.insert (removeArrayIndices key) s)
                                   (keysByDepth depth) s)
                 [1..<Suc maxDepth] []
      in sort uniqueKeySet)"

text \<open>\<open>extractArrayPathAndIndex\<close>: the text and digits of the last match, the last
  position of that text in the key, and the key up to there. The pair
  \<open>('''', -1)\<close> is returned when there is no match.\<close>

definition extractArrayPathAndIndex :: "string \<Rightarrow> string \<times> int" where
  "extractArrayPathAndIndex key =
     (case [ds. Inr ds \<leftarrow> indexTokens key] of
        [] \<Rightarrow> ('''', -1)
      | m # ms \<Rightarrow>
          (let ds = last (m # ms);
               index = (case Atoi ds of Some parsed \<Rightarrow> parsed | None \<Rightarrow> 0)
           in case LastIndex key (''['' @ ds @ '']'') of
                None \<Rightarrow> ('''', -1)
              | Some lastIndexPos \<Rightarrow> (take lastIndexPos key, index)))"

text \<open>\<open>findArrayPaths\<close>: \<open>arrayPaths\<close> is a Go map from a path to the list of its
  indices, here an association list with one entry per path.\<close>

fun assign :: "'k \<Rightarrow> 'v \<Rightarrow> ('k \<times> 'v) list \<Rightarrow> ('k \<times> 'v) list" where
  "assign k v [] = [(k, v)]"
| "assign k v (p # ps) = (if fst p = k then (k, v) # ps else p # assign k v ps)"

definition lookup_list :: "('k \<times> 'v list) list \<Rightarrow> 'k \<Rightarrow> 'v list" where
  "lookup_list m k = (case map_of m k of None \<Rightarrow> [] | Some vs \<Rightarrow> vs)"

definition findArrayPaths :: "'f flatmap \<Rightarrow> (string \<times> int list) list" where
  "findArrayPaths data =
     map (\<lambda>p. (fst p, sort (snd p)))
       (fold (\<lambda>key arrayPaths.
                case extractArrayPathAndIndex key of (path, index) \<Rightarrow>
                  if path \<noteq> ''''
                  then (if index \<in> set (lookup_list arrayPaths path)
                        then assign path (lookup_list arrayPaths path) arrayPaths
                        else assign path (lookup_list arrayPaths path @ [index]) arrayPaths)
                  else arrayPaths)
             (map fst data) [])"

text \<open>\<open>generateCombinationsRecursive\<close> over the sorted paths: a combination is a
  Go map from path to index, here the association list of the assignments in
  the order the recursion makes them.\<close>

fun generateCombinationsRecursive ::
  "string list \<Rightarrow> (string \<times> int list) list \<Rightarrow> (string \<times> int) list \<Rightarrow> (string \<times> int) list list"
where
  "generateCombinationsRecursive [] arrayPaths currentCombination = [currentCombination]"
| "generateCombinationsRecursive (path # paths) arrayPaths currentCombination =
     concat (map (\<lambda>index. generateCombinationsRecursive paths arrayPaths
                             (assign path index currentCombination))
                 (lookup_list arrayPaths path))"

definition generateArrayCombinations :: "(string \<times> int list) list \<Rightarrow> (string \<times> int) list list" where
  "generateArrayCombinations arrayPaths =
     (if arrayPaths = [] then [[]]
      else generateCombinationsRecursive (sort (map fst arrayPaths)) arrayPaths [])"

text \<open>The loops that look a cell up range over the Go map, and Go chooses the
  order of a \<open>range\<close> over a map afresh each time. The order is a parameter:
  \<open>visit uniqueKey combination data\<close> lists the entries of \<open>data\<close> in the
  order in which the loop for that cell (column \<open>uniqueKey\<close>, row
  \<open>combination\<close>) meets them. The loops of \<open>findArrayPaths\<close> and
  \<open>analyzeUniqueKeys\<close> follow the list; their results are sorted afterwards.\<close>

type_synonym 'f visit = "string \<Rightarrow> (string \<times> int) list \<Rightarrow> 'f flatmap \<Rightarrow> 'f flatmap"

text \<open>Two visits for evaluations on concrete flat maps, the entries met as listed
  and met in the opposite order; and \<open>unformatted\<close>, which stands for the two
  \<open>Sprintf\<close> calls of \<open>formatValue\<close> in evaluations on flat maps that hold no
  float, slice or map, where neither is called.\<close>

definition visitListed :: "'f visit" where
  "visitListed uniqueKey combination data = data"

definition visitReversed :: "'f visit" where
  "visitReversed uniqueKey combination data = rev data"

definition unformatted :: "'a \<Rightarrow> string" where
  "unformatted v = ''''"

text \<open>\<open>findValueForUniqueKey\<close>; \<open>JNull\<close> is Go's \<open>nil\<close>.\<close>

definition lookup_value :: "'f flatmap \<Rightarrow> string \<Rightarrow> 'f jvalue option" where
  "lookup_value data k = map_of data k"

definition findValueForUniqueKey :: "'f visit \<Rightarrow> 'f flatmap \<Rightarrow> string \<Rightarrow> 'f jvalue" where
  "findValueForUniqueKey visit data uniqueKey =
     (case lookup_value data uniqueKey of
        Some v \<Rightarrow> v
      | None \<Rightarrow>
          (case find (\<lambda>kv. removeArrayIndices (fst kv) = uniqueKey) (visit uniqueKey [] data) of
             Some kv \<Rightarrow> snd kv
           | None \<Rightarrow> JNull))"

text \<open>\<open>buildSpecificKey\<close>: the paths of the combination, longest first.\<close>

definition buildSpecificKey :: "string \<Rightarrow> (string \<times> int) list \<Rightarrow> string" where
  "buildSpecificKey uniqueKey combination =
     fold (\<lambda>path result.
             if HasPrefix result path
             then ReplaceFirst result path
                    (path @ ''['' @ show_int (case map_of combination path of None \<Rightarrow> 0 | Some index \<Rightarrow> index) @ '']'')
             else result)
          (rev (sort_key length (map fst combination))) uniqueKey"

text \<open>\<open>matchesKeyPattern\<close>: the first place in \<open>key\<close> where \<open>path\<close> is followed by
  an index, and the digits there.\<close>

definition firstIndexAfter :: "string \<Rightarrow> string \<Rightarrow> string option" where
  "firstIndexAfter key path =
     map_option (\<lambda>i. fst (the (indexAt (drop (i + length path) key))))
       (find (\<lambda>i. HasPrefix (drop i key) path \<and> indexAt (drop (i + length path) key) \<noteq> None)
             [0..<Suc (length key)])"

definition matchesKeyPattern :: "string \<Rightarrow> string \<Rightarrow> (string \<times> int) list \<Rightarrow> bool" where
  "matchesKeyPattern key uniqueKey combination =
     (if removeArrayIndices key \<noteq> uniqueKey then False
      else list_all (\<lambda>pe.
             case pe of (path, expectedIndex) \<Rightarrow>
               if Contains key path
               then (case firstIndexAfter key path of
                       None \<Rightarrow> True
                     | Some ds \<Rightarrow>
                         (case Atoi ds of
                            None \<Rightarrow> True
                          | Some actualIndex \<Rightarrow> actualIndex = expectedIndex))
               else True) combination)"

definition findValueForCombination ::
  "'f visit \<Rightarrow> 'f flatmap \<Rightarrow> string \<Rightarrow> (string \<times> int) list \<Rightarrow> 'f jvalue" where
  "findValueForCombination visit data uniqueKey combination =
     (case lookup_value data uniqueKey of
        Some v \<Rightarrow> v
      | None \<Rightarrow>
          (case lookup_value data (buildSpecificKey uniqueKey combination) of
             Some v \<Rightarrow> v
           | None \<Rightarrow>
               (case find (\<lambda>kv. matchesKeyPattern (fst kv) uniqueKey combination)
                          (visit uniqueKey combination data) of
                  Some kv \<Rightarrow> snd kv
                | None \<Rightarrow> JNull)))"

text \<open>\<open>formatValue\<close>: \<open>fmtFloat\<close> is \<open>Sprintf("%.15f", v)\<close> and \<open>fmtOther\<close> is
  \<open>Sprintf("%v", v)\<close> on a slice or a map.\<close>

definition formatValue :: "('f \<Rightarrow> string) \<Rightarrow> ('f jvalue \<Rightarrow> string) \<Rightarrow> 'f jvalue \<Rightarrow> string" where
  "formatValue fmtFloat fmtOther value =
     (case value of
        JNull \<Rightarrow> ''''
      | JString v \<Rightarrow> v
      | JInt v \<Rightarrow> show_int v
      | JFloat v \<Rightarrow> fmtFloat v
      | JBool v \<Rightarrow> (if v then ''true'' else ''false'')
      | JArray v \<Rightarrow> fmtOther value
      | JObject v \<Rightarrow> fmtOther value)"

definition generateCSVRows ::
  "'f visit \<Rightarrow> ('f \<Rightarrow> string) \<Rightarrow> ('f jvalue \<Rightarrow> string) \<Rightarrow> 'f flatmap \<Rightarrow> string list
     \<Rightarrow> string list list" where
  "generateCSVRows visit fmtFloat fmtOther data uniqueKeys =
     (let arrayPaths = findArrayPaths data in
      if length arrayPaths = 0
      then [map (\<lambda>uniqueKey. formatValue fmtFloat fmtOther
                                 (findValueForUniqueKey visit data uniqueKey))
                uniqueKeys]
      else map (\<lambda>combination.
                  map (\<lambda>uniqueKey. formatValue fmtFloat fmtOther
                                     (findValueForCombination visit data uniqueKey combination))
                      uniqueKeys)
               (generateArrayCombinations arrayPaths))"

text \<open>\<open>convertToCSV\<close> on the results of one batch (one result for each endpoint
  that answered): the headers are those of the whole batch, and every result
  gets these headers and its own rows.\<close>

definition convertToCSV ::
  "'f visit \<Rightarrow> ('f \<Rightarrow> string) \<Rightarrow> ('f jvalue \<Rightarrow> string) \<Rightarrow> 'f flatmap list
     \<Rightarrow> (string list \<times> string list list) list" where
  "convertToCSV visit fmtFloat fmtOther results =
     (let uniqueKeys = analyzeUniqueKeys results in
      map (\<lambda>data. (uniqueKeys, generateCSVRows visit fmtFloat fmtOther data uniqueKeys)) results)"

text \<open>The flat map of the nested-array guide (NESTED_ARRAY_CSV_GUIDE.md), in the
  order the guide lists it. A JSON number is a \<open>float64\<close> after decoding:
  \<open>f64\<close> maps the literal of the guide to that value.\<close>

definition s2_data :: "(string \<Rightarrow> 'f) \<Rightarrow> 'f flatmap" where
  "s2_data f64 =
    [(''[0].key'', JString ''api-service''),
     (''[0].doc_count'', JFloat (f64 ''1000'')),
     (''[0].avg_response_time'', JFloat (f64 ''125.5'')),
     (''[0].hosts.buckets[0].key'', JString ''host-1''),
     (''[0].hosts.buckets[0].cpu_usage.buckets[0].system'', JFloat (f64 ''15.7'')),
     (''[0].hosts.buckets[0].cpu_usage.buckets[0].user'', JFloat (f64 ''55.2'')),
     (''[0].hosts.buckets[0].cpu_usage.buckets[0].idle'', JFloat (f64 ''57.3'')),
     (''[0].hosts.buckets[0].cpu_usage.buckets[1].system'', JFloat (f64 ''25.7'')),
     (''[0].hosts.buckets[0].cpu_usage.buckets[1].user'', JFloat (f64 ''53.1'')),
     (''[0].hosts.buckets[0].cpu_usage.buckets[1].idle'', JFloat (f64 ''25.2'')),
     (''[0].hosts.buckets[1].key'', JString ''host-2''),
     (''[0].hosts.buckets[1].cpu_usage.buckets[0].system'', JFloat (f64 ''35.7'')),
     (''[0].hosts.buckets[1].cpu_usage.buckets[0].user'', JFloat (f64 ''52.2'')),
     (''[0].hosts.buckets[1].cpu_usage.buckets[0].idle'', JFloat (f64 ''34.2'')),
     (''[0].hosts.buckets[1].cpu_usage.buckets[1].system'', JFloat (f64 ''15.7'')),
     (''[0].hosts.buckets[1].cpu_usage.buckets[1].user'', JFloat (f64 ''23.1'')),
     (''[0].hosts.buckets[1].cpu_usage.buckets[1].idle'', JFloat (f64 ''60.2'')),
     (''[1].key'', JString ''web-service''),
     (''[1].doc_count'', JFloat (f64 ''500'')),
     (''[1].avg_response_time'', JFloat (f64 ''89.3'')),
     (''[1].hosts.buckets[0].key'', JString ''host-3''),
     (''[1].hosts.buckets[0].cpu_usage.buckets[0].system'', JFloat (f64 ''6.7'')),
     (''[1].hosts.buckets[0].cpu_usage.buckets[0].user'', JFloat (f64 ''9.3'')),
     (''[1].hosts.buckets[0].cpu_usage.buckets[0].idle'', JFloat (f64 ''74.6'')),
     (''[1].hosts.buckets[0].cpu_usage.buckets[1].system'', JFloat (f64 ''27.0'')),
     (''[1].hosts.buckets[0].cpu_usage.buckets[1].user'', JFloat (f64 ''13.2'')),
     (''[1].hosts.buckets[0].cpu_usage.buckets[1].idle'', JFloat (f64 ''63.5'')),
     (''[1].hosts.buckets[1].key'', JString ''host-4''),
     (''[1].hosts.buckets[1].cpu_usage.buckets[0].system'', JFloat (f64 ''20.7'')),
     (''[1].hosts.buckets[1].cpu_usage.buckets[0].user'', JFloat (f64 ''12.3'')),
     (''[1].hosts.buckets[1].cpu_usage.buckets[0].idle'', JFloat (f64 ''54.5'')),
     (''[1].hosts.buckets[1].cpu_usage.buckets[1].system'', JFloat (f64 ''27.7'')),
     (''[1].hosts.buckets[1].cpu_usage.buckets[1].user'', JFloat (f64 ''33.4'')),
     (''[1].hosts.buckets[1].cpu_usage.buckets[1].idle'', JFloat (f64 ''40.9''))]"

subsection \<open>Extractor: flattening and key filters\<close>

text \<open>\<open>config.FilterConfig\<close> and the fields of \<open>config.ExtractConfig\<close> that the
  embedded functions read.\<close>

record FilterConfig =
  Type :: string
  Pattern :: string

record ExtractConfig =
  ElasticsearchQuery :: string
  URLs :: "string list"
  ClusterNames :: "string list"
  AuthHeaders :: "string list"
  AdditionalHeaders :: "string list list"
  JSONPath :: string
  Filters :: "FilterConfig list"
  StartTime :: string
  EndTime :: string

text \<open>\<open>strings.ToLower\<close> on the bytes of a string: an ASCII capital is mapped to
  its small letter. The library also maps capitals outside ASCII, to letters
  outside ASCII except for U+212A (to \<open>k\<close>) and U+0130 (to \<open>i\<close>); neither
  letter occurs in \<open>value\<close>, so the test \<open>ToLower key = ''value''\<close> below has
  the library's result on every key.\<close>

definition lower_char :: "char \<Rightarrow> char" where
  "lower_char c =
     (if 65 \<le> (of_char c :: nat) \<and> (of_char c :: nat) \<le> 90
      then char_of ((of_char c :: nat) + 32) else c)"

definition ToLower :: "string \<Rightarrow> string" where
  "ToLower s = map lower_char s"

text \<open>\<open>for k, v := range m { result[k] = v }\<close>.\<close>

definition assign_all :: "('k \<times> 'v) list \<Rightarrow> ('k \<times> 'v) list \<Rightarrow> ('k \<times> 'v) list" where
  "assign_all m result = fold (\<lambda>kv r. assign (fst kv) (snd kv) r) m result"

text \<open>\<open>flattenJSON\<close>. A decoded JSON object is a Go map, here the list of its
  entries; \<open>flattenFields\<close> and \<open>flattenItems\<close> are the two \<open>range\<close> loops.\<close>

fun flattenJSON :: "'f jvalue \<Rightarrow> string \<Rightarrow> 'f flatmap"
  and flattenFields :: "(string \<times> 'f jvalue) list \<Rightarrow> string \<Rightarrow> 'f flatmap \<Rightarrow> 'f flatmap"
  and flattenItems :: "'f jvalue list \<Rightarrow> string \<Rightarrow> nat \<Rightarrow> 'f flatmap \<Rightarrow> 'f flatmap"
where
  "flattenJSON (JObject v) prefix =
     (if length v = 1 \<and> ToLower (fst (hd v)) = ''value''
      then (if prefix \<noteq> '''' then [(prefix, snd (hd v))] else [(''value'', snd (hd v))])
      else flattenFields v prefix [])"
| "flattenJSON (JArray v) prefix = flattenItems v prefix 0 []"
| "flattenJSON JNull prefix =
     (if prefix \<noteq> '''' then [(prefix, JNull)] else [(''value'', JNull)])"
| "flattenJSON (JBool b) prefix =
     (if prefix \<noteq> '''' then [(prefix, JBool b)] else [(''value'', JBool b)])"
| "flattenJSON (JInt i) prefix =
     (if prefix \<noteq> '''' then [(prefix, JInt i)] else [(''value'', JInt i)])"
| "flattenJSON (JFloat x) prefix =
     (if prefix \<noteq> '''' then [(prefix, JFloat x)] else [(''value'', JFloat x)])"
| "flattenJSON (JString s) prefix =
     (if prefix \<noteq> '''' then [(prefix, JString s)] else [(''value'', JString s)])"
| "flattenFields [] prefix result = result"
| "flattenFields (kv # rest) prefix result =
     flattenFields rest prefix
       (assign_all (flattenJSON (snd kv)
                      (if prefix \<noteq> '''' then prefix @ ''.'' @ fst kv else fst kv))
                   result)"
| "flattenItems [] prefix i result = result"
| "flattenItems (item # rest) prefix i result =
     flattenItems rest prefix (Suc i)
       (assign_all (flattenJSON item
                      (if prefix = '''' then ''['' @ show_nat i @ '']''
                       else prefix @ ''['' @ show_nat i @ '']''))
                   result)"

text \<open>The flattening rules F1 to F4 of the specification, as the list of the
  bindings they produce, in order and before any two bindings of the same key
  are merged: a one-key object whose lower-cased key is \<open>value\<close> binds its child
  at the current prefix (F1), any other object recurses into each key under
  \<open>prefix.key\<close> (F2), an array recurses into each element under \<open>prefix[i]\<close>
  (F3), and a scalar is bound at the prefix (F4); the empty prefix binds at
  \<open>value\<close>.\<close>

definition bindKey :: "string \<Rightarrow> string" where
  "bindKey prefix = (if prefix = '''' then ''value'' else prefix)"

definition childKey :: "string \<Rightarrow> string \<Rightarrow> string" where
  "childKey prefix key = (if prefix = '''' then key else prefix @ ''.'' @ key)"

definition itemKey :: "string \<Rightarrow> nat \<Rightarrow> string" where
  "itemKey prefix i = prefix @ ''['' @ show_nat i @ '']''"

definition collapses :: "(string \<times> 'f jvalue) list \<Rightarrow> bool" where
  "collapses kvs = (length kvs = 1 \<and> ToLower (fst (hd kvs)) = ''value'')"

fun leaves :: "'f jvalue \<Rightarrow> string \<Rightarrow> (string \<times> 'f jvalue) list"
  and leavesFields :: "(string \<times> 'f jvalue) list \<Rightarrow> string \<Rightarrow> (string \<times> 'f jvalue) list"
  and leavesItems :: "'f jvalue list \<Rightarrow> string \<Rightarrow> nat \<Rightarrow> (string \<times> 'f jvalue) list"
where
  "leaves (JObject kvs) prefix =
     (if collapses kvs then [(bindKey prefix, snd (hd kvs))] else leavesFields kvs prefix)"
| "leaves (JArray items) prefix = leavesItems items prefix 0"
| "leaves JNull prefix = [(bindKey prefix, JNull)]"
| "leaves (JBool b) prefix = [(bindKey prefix, JBool b)]"
| "leaves (JInt i) prefix = [(bindKey prefix, JInt i)]"
| "leaves (JFloat x) prefix = [(bindKey prefix, JFloat x)]"
| "leaves (JString s) prefix = [(bindKey prefix, JString s)]"
| "leavesFields [] prefix = []"
| "leavesFields (kv # rest) prefix =
     leaves (snd kv) (childKey prefix (fst kv)) @ leavesFields rest prefix"
| "leavesItems [] prefix i = []"
| "leavesItems (item # rest) prefix i =
     leaves item (itemKey prefix i) @ leavesItems rest prefix (Suc i)"

text \<open>The values met while a value is flattened, each with its current prefix:
  the value itself, and what rules F2 and F3 recurse into. The child of a
  collapsing object is bound, not flattened, and is not among them.\<close>

fun visited :: "'f jvalue \<Rightarrow> string \<Rightarrow> ('f jvalue \<times> string) list"
  and visitedFields :: "(string \<times> 'f jvalue) list \<Rightarrow> string \<Rightarrow> ('f jvalue \<times> string) list"
  and visitedItems :: "'f jvalue list \<Rightarrow> string \<Rightarrow> nat \<Rightarrow> ('f jvalue \<times> string) list"
where
  "visited (JObject kvs) prefix =
     (JObject kvs, prefix) # (if collapses kvs then [] else visitedFields kvs prefix)"
| "visited (JArray items) prefix = (JArray items, prefix) # visitedItems items prefix 0"
| "visited JNull prefix = [(JNull, prefix)]"
| "visited (JBool b) prefix = [(JBool b, prefix)]"
| "visited (JInt i) prefix = [(JInt i, prefix)]"
| "visited (JFloat x) prefix = [(JFloat x, prefix)]"
| "visited (JString s) prefix = [(JString s, prefix)]"
| "visitedFields [] prefix = []"
| "visitedFields (kv # rest) prefix =
     visited (snd kv) (childKey prefix (fst kv)) @ visitedFields rest prefix"
| "visitedItems [] prefix i = []"
| "visitedItems (item # rest) prefix i =
     visited item (itemKey prefix i) @ visitedItems rest prefix (Suc i)"

text \<open>\<open>matchesFilter\<close>. The regular-expression library is a parameter:
  \<open>compile\<close> is \<open>regexp.Compile\<close> (\<open>None\<close> when the pattern is not a valid
  expression) and \<open>matchString\<close> is \<open>MatchString\<close> of a compiled expression.\<close>

definition matchesFilter ::
  "(string \<Rightarrow> 'rx option) \<Rightarrow> ('rx \<Rightarrow> string \<Rightarrow> bool) \<Rightarrow> string \<Rightarrow> string \<Rightarrow> bool" where
  "matchesFilter compile matchString key pattern =
     (case compile pattern of
        None \<Rightarrow> pattern = key
      | Some regex \<Rightarrow> matchString regex key)"

definition applyFilters ::
  "(string \<Rightarrow> 'rx option) \<Rightarrow> ('rx \<Rightarrow> string \<Rightarrow> bool) \<Rightarrow> FilterConfig list
     \<Rightarrow> 'f flatmap \<Rightarrow> 'f flatmap" where
  "applyFilters compile matchString filters data =
     (if length filters = 0 then data
      else
        (let hasIncludeFilters = list_ex (\<lambda>f. Type f = ''include'') filters;
             start = (if \<not> hasIncludeFilters then assign_all data [] else [])
         in fold (\<lambda>f result.
                    if Type f = ''exclude''
                    then filter (\<lambda>kv. \<not> matchesFilter compile matchString (fst kv) (Pattern f))
                                result
                    else if Type f = ''include''
                    then assign_all
                           (filter (\<lambda>kv. matchesFilter compile matchString (fst kv) (Pattern f))
                                   data)
                           result
                    else result)
                 filters start))"

text \<open>\<open>extractDataFromResponse\<close>. \<open>unmarshal\<close> is \<open>json.Unmarshal\<close> into an
  \<open>interface{}\<close> (\<open>None\<close> for its error) and \<open>gjsonGet body path\<close> is the raw text
  of \<open>gjson.Get(body, path)\<close> when the result exists.\<close>

datatype extract_error = UnmarshalResponseFailed | UnmarshalExtractedFailed

definition extractDataFromResponse ::
  "(string \<Rightarrow> 'f jvalue option) \<Rightarrow> (string \<Rightarrow> string \<Rightarrow> string option)
     \<Rightarrow> (string \<Rightarrow> 'rx option) \<Rightarrow> ('rx \<Rightarrow> string \<Rightarrow> bool)
     \<Rightarrow> ExtractConfig \<Rightarrow> string \<Rightarrow> extract_error + 'f flatmap" where
  "extractDataFromResponse unmarshal gjsonGet compile matchString cfg responseBody =
     (if JSONPath cfg = ''''
      then (case unmarshal responseBody of
              None \<Rightarrow> Inl UnmarshalResponseFailed
            | Some data \<Rightarrow> Inr (flattenJSON data ''''))
      else (case gjsonGet responseBody (JSONPath cfg) of
              None \<Rightarrow> Inr []
            | Some raw \<Rightarrow>
                (case unmarshal raw of
                   None \<Rightarrow> Inl UnmarshalExtractedFailed
                 | Some extractedData \<Rightarrow>
                     Inr (applyFilters compile matchString (Filters cfg)
                            (flattenJSON extractedData '''')))))"

subsection \<open>Extractor: fan-out over the endpoints\<close>




subsection \<open>Time-series grouping (GEMStream.createPrometheusTimeSeriesForMetric)\<close>

text \<open>\<open>config.PrometheusLabelConfig\<close> and \<open>config.PrometheusMetricConfig\<close>. The
  column indices are Go \<open>int\<close>s; the configuration loader does not reject a
  negative one.\<close>

record PrometheusLabelConfig =
  LabelName :: string
  IndexInCSVData :: int
  StaticValue :: string

record PrometheusMetricConfig =
  Name :: string
  UniqueFieldsIndex :: "int list"
  Value :: int
  Timestamp :: int
  Labels :: "PrometheusLabelConfig list"

text \<open>One emitted time series: the label map and the samples, each a timestamp
  and a value.\<close>

record 'f TimeSeries =
  labels :: "(string \<times> string) list"
  samples :: "(int \<times> 'f) list"

text \<open>Go's \<open>s[i]\<close>: panics unless \<open>0 \<le> i < len(s)\<close>.\<close>

definition index_at :: "'a list \<Rightarrow> int \<Rightarrow> panic + 'a" where
  "index_at s i =
     (if 0 \<le> i \<and> i < int (length s) then Inr (s ! nat i) else Inl IndexOutOfRange)"

text \<open>\<open>strings.Join(parts, sep)\<close>.\<close>

fun Join :: "string list \<Rightarrow> string \<Rightarrow> string" where
  "Join [] sep = ''''"
| "Join [p] sep = p"
| "Join (p # q # ps) sep = p @ sep @ Join (q # ps) sep"

text \<open>The loop over \<open>metric.UniqueFieldsIndex\<close> that collects \<open>keyParts\<close>.\<close>

fun keyParts :: "string list \<Rightarrow> int list \<Rightarrow> panic + string list" where
  "keyParts row [] = Inr []"
| "keyParts row (idx # rest) =
     (if idx < int (length row)
      then (case index_at row idx of
              Inl e \<Rightarrow> Inl e
            | Inr cell \<Rightarrow>
                (case keyParts row rest of
                   Inl e \<Rightarrow> Inl e
                 | Inr cells \<Rightarrow> Inr (cell # cells)))
      else keyParts row rest)"

text \<open>The loop over the rows. \<open>uniqueGroups\<close> maps a key to its samples; a sample
  holds the value, the timestamp and the row. \<open>parseFloat\<close> is
  \<open>strconv.ParseFloat(s, 64)\<close>, \<open>None\<close> for its error; \<open>parseInt64\<close> is
  \<open>ParseInt\<close> above.\<close>

fun groupRows ::
  "(string \<Rightarrow> 'f option) \<Rightarrow> PrometheusMetricConfig \<Rightarrow> string list list
     \<Rightarrow> (string \<times> ('f \<times> int \<times> string list) list) list
     \<Rightarrow> panic + (string \<times> ('f \<times> int \<times> string list) list) list" where
  "groupRows parseFloat metric [] uniqueGroups = Inr uniqueGroups"
| "groupRows parseFloat metric (row # rows) uniqueGroups =
     (if int (length row) \<le> Value metric \<or> int (length row) \<le> Timestamp metric
      then groupRows parseFloat metric rows uniqueGroups
      else
        (case keyParts row (UniqueFieldsIndex metric) of
           Inl e \<Rightarrow> Inl e
         | Inr parts \<Rightarrow>
             (case index_at row (Value metric) of
                Inl e \<Rightarrow> Inl e
              | Inr valueCell \<Rightarrow>
                  (case parseFloat valueCell of
                     None \<Rightarrow> groupRows parseFloat metric rows uniqueGroups
                   | Some value \<Rightarrow>
                       (case index_at row (Timestamp metric) of
                          Inl e \<Rightarrow> Inl e
                        | Inr timestampCell \<Rightarrow>
                            (case ParseInt timestampCell of
                               None \<Rightarrow> groupRows parseFloat metric rows uniqueGroups
                             | Some timestamp \<Rightarrow>
                                 groupRows parseFloat metric rows
                                   (assign (Join parts ''|'')
                                      (lookup_list uniqueGroups (Join parts ''|'')
                                         @ [(value, timestamp, row)])
                                      uniqueGroups)))))))"

text \<open>The loop over \<open>metric.Labels\<close>, on the row of the first sample of a group.\<close>

fun addDynamicLabels ::
  "string list \<Rightarrow> PrometheusLabelConfig list \<Rightarrow> (string \<times> string) list
     \<Rightarrow> panic + (string \<times> string) list" where
  "addDynamicLabels row [] lbls = Inr lbls"
| "addDynamicLabels row (label # rest) lbls =
     (if StaticValue label \<noteq> ''''
      then addDynamicLabels row rest (assign (LabelName label) (StaticValue label) lbls)
      else if IndexInCSVData label < int (length row)
      then (case index_at row (IndexInCSVData label) of
              Inl e \<Rightarrow> Inl e
            | Inr cell \<Rightarrow> addDynamicLabels row rest (assign (LabelName label) cell lbls))
      else addDynamicLabels row rest lbls)"

text \<open>The loop over the groups; \<open>streamLabels\<close> is \<open>g.labels\<close>, the labels
  configured on the stream. The groups are visited in the order of the list.\<close>

fun emitSeries ::
  "(string \<times> string) list \<Rightarrow> PrometheusMetricConfig
     \<Rightarrow> (string \<times> ('f \<times> int \<times> string list) list) list \<Rightarrow> panic + 'f TimeSeries list" where
  "emitSeries streamLabels metric [] = Inr []"
| "emitSeries streamLabels metric (grp # groups) =
     (case snd grp of
        [] \<Rightarrow> emitSeries streamLabels metric groups
      | firstSample # others \<Rightarrow>
          (case addDynamicLabels (snd (snd firstSample)) (Labels metric)
                  [(''__name__'', Name metric)] of
             Inl e \<Rightarrow> Inl e
           | Inr lbls \<Rightarrow>
               (case emitSeries streamLabels metric groups of
                  Inl e \<Rightarrow> Inl e
                | Inr series \<Rightarrow>
                    Inr (\<lparr>labels = assign_all streamLabels lbls,
                          samples = map (\<lambda>sample. (fst (snd sample), fst sample)) (snd grp)\<rparr>
                         # series))))"

definition createPrometheusTimeSeriesForMetric ::
  "(string \<Rightarrow> 'f option) \<Rightarrow> (string \<times> string) list \<Rightarrow> string list list
     \<Rightarrow> PrometheusMetricConfig \<Rightarrow> panic + 'f TimeSeries list" where
  "createPrometheusTimeSeriesForMetric parseFloat streamLabels csvData metric =
     (case groupRows parseFloat metric csvData [] of
        Inl e \<Rightarrow> Inl e
      | Inr uniqueGroups \<Rightarrow> emitSeries streamLabels metric uniqueGroups)"

text \<open>The grouping in closed form, for column indices that are not negative.
  A row is kept when it is long enough and both cells parse; its key joins the
  cells at the unique-column indices that lie within the row; the keys are
  listed in the order of their first row; the labels start from \<open>__name__\<close>,
  take the label rules in order and then the labels of the stream.\<close>

definition keptRow :: "(string \<Rightarrow> 'f option) \<Rightarrow> PrometheusMetricConfig \<Rightarrow> string list \<Rightarrow> bool" where
  "keptRow parseFloat metric row =
     (\<not> int (length row) \<le> max (Value metric) (Timestamp metric)
      \<and> parseFloat (row ! nat (Value metric)) \<noteq> None
      \<and> ParseInt (row ! nat (Timestamp metric)) \<noteq> None)"

definition uniqueKey :: "PrometheusMetricConfig \<Rightarrow> string list \<Rightarrow> string" where
  "uniqueKey metric row =
     Join (map (\<lambda>idx. row ! nat idx)
               (filter (\<lambda>idx. idx < int (length row)) (UniqueFieldsIndex metric))) ''|''"

definition firstOccurrences :: "'a list \<Rightarrow> 'a list" where
  "firstOccurrences xs = fold (\<lambda>x seen. if x \<in> set seen then seen else seen @ [x]) xs []"

definition labelRule :: "string list \<Rightarrow> PrometheusLabelConfig \<Rightarrow> (string \<times> string) list
     \<Rightarrow> (string \<times> string) list" where
  "labelRule row label lbls =
     (if StaticValue label \<noteq> '''' then assign (LabelName label) (StaticValue label) lbls
      else if IndexInCSVData label < int (length row)
      then assign (LabelName label) (row ! nat (IndexInCSVData label)) lbls
      else lbls)"

definition seriesLabels ::
  "(string \<times> string) list \<Rightarrow> PrometheusMetricConfig \<Rightarrow> string list \<Rightarrow> (string \<times> string) list" where
  "seriesLabels streamLabels metric row =
     assign_all streamLabels
       (fold (labelRule row) (Labels metric) [(''__name__'', Name metric)])"

definition groupedSeries ::
  "(string \<Rightarrow> 'f option) \<Rightarrow> (string \<times> string) list \<Rightarrow> string list list
     \<Rightarrow> PrometheusMetricConfig \<Rightarrow> 'f TimeSeries list" where
  "groupedSeries parseFloat streamLabels csvData metric =
     (let kept = filter (keptRow parseFloat metric) csvData in
      map (\<lambda>key.
             (let rows = filter (\<lambda>row. uniqueKey metric row = key) kept in
              \<lparr>labels = seriesLabels streamLabels metric (hd rows),
               samples = map (\<lambda>row. (the (ParseInt (row ! nat (Timestamp metric))),
                                       the (parseFloat (row ! nat (Value metric))))) rows\<rparr>))
          (firstOccurrences (map (uniqueKey metric) kept)))"

definition nonNegativeColumns :: "PrometheusMetricConfig \<Rightarrow> bool" where
  "nonNegativeColumns metric =
     (0 \<le> Value metric \<and> 0 \<le> Timestamp metric
      \<and> list_all (\<lambda>idx. 0 \<le> idx) (UniqueFieldsIndex metric)
      \<and> list_all (\<lambda>label. 0 \<le> IndexInCSVData label) (Labels metric))"

text \<open>The sample that the row loop appends for a kept row.\<close>

definition sampleOf ::
  "(string \<Rightarrow> 'f option) \<Rightarrow> PrometheusMetricConfig \<Rightarrow> string list \<Rightarrow> 'f \<times> int \<times> string list" where
  "sampleOf parseFloat metric row =
     (the (parseFloat (row ! nat (Value metric))),
      the (ParseInt (row ! nat (Timestamp metric))), row)"

subsection \<open>Macro expander (MacroSubstituter)\<close>

text \<open>\<open>strings.ReplaceAll(s, old, new)\<close> for a non-empty \<open>old\<close>: the leftmost
  occurrences, not overlapping, are replaced and the replacement is not scanned
  again. Every call in the program passes one of three macro names as \<open>old\<close>;
  the function is left unspecified for the empty \<open>old\<close>.\<close>

fun ReplaceAll :: "string \<Rightarrow> string \<Rightarrow> string \<Rightarrow> string" where
  "ReplaceAll [] (c # cs) new = []"
| "ReplaceAll (x # xs) (c # cs) new =
     (if HasPrefix (x # xs) (c # cs)
      then new @ ReplaceAll (drop (length cs) xs) (c # cs) new
      else x # ReplaceAll xs (c # cs) new)"

text \<open>The library functions that \<open>parseTimeExpression\<close> calls and that are not
  modelled byte by byte: \<open>strings.TrimSpace\<close> and \<open>strings.ToUpper\<close> (both
  follow Unicode), \<open>time.Now\<close>, \<open>Time.Add\<close> with the duration in nanoseconds,
  and \<open>Time.UnixMilli\<close>.\<close>

record 't timelib =
  trimSpace :: "string \<Rightarrow> string"
  toUpper :: "string \<Rightarrow> string"
  timeNow :: 't
  timeAdd :: "'t \<Rightarrow> int \<Rightarrow> 't"
  unixMilli :: "'t \<Rightarrow> int"

text \<open>Arithmetic on \<open>int64\<close> wraps around.\<close>

definition wrap64 :: "int \<Rightarrow> int" where
  "wrap64 x = (x + 2 ^ 63) mod 2 ^ 64 - 2 ^ 63"

text \<open>The regular expression \<open>^NOW\s*([+-])\s*(\d+)\s*(MIN|SEC)$\<close>: the three
  groups of its match. \<open>\s\<close> is one of tab, line feed, form feed, carriage
  return and space.\<close>

definition space :: "char \<Rightarrow> bool" where
  "space c = (c \<in> set [CHR 0x09, CHR 0x0A, CHR 0x0C, CHR 0x0D, CHR '' ''])"

definition nowPattern :: "string \<Rightarrow> (string \<times> string \<times> string) option" where
  "nowPattern s =
     (if \<not> HasPrefix s ''NOW'' then None
      else
        (let r1 = dropWhile space (drop 3 s) in
         if r1 = [] \<or> (hd r1 \<noteq> CHR ''+'' \<and> hd r1 \<noteq> CHR ''-'') then None
         else
           (let r2 = dropWhile space (tl r1);
                ds = takeWhile digit r2;
                r3 = dropWhile space (dropWhile digit r2)
            in if ds = [] then None
               else if r3 = ''MIN'' \<or> r3 = ''SEC'' then Some ([hd r1], ds, r3)
               else None)))"

datatype time_error = InvalidTimeExpression | InvalidNumericValue | UnsupportedTimeUnit

datatype macro_error =
    StartTimeNotConfigured
  | FailedToParseStartTime time_error
  | EndTimeNotConfigured
  | FailedToParseEndTime time_error

definition parseTimeExpression :: "'t timelib \<Rightarrow> string \<Rightarrow> time_error + int" where
  "parseTimeExpression lib expr0 =
     (let expr = trimSpace lib expr0 in
      if toUpper lib expr = ''NOW'' then Inr (unixMilli lib (timeNow lib))
      else
        (case nowPattern (toUpper lib expr) of
           None \<Rightarrow>
             (case ParseInt expr of
                Some timestamp \<Rightarrow> Inr timestamp
              | None \<Rightarrow> Inl InvalidTimeExpression)
         | Some (operator, valueStr, unit) \<Rightarrow>
             (case Atoi valueStr of
                None \<Rightarrow> Inl InvalidNumericValue
              | Some value \<Rightarrow>
                  (if toUpper lib unit = ''MIN'' \<or> toUpper lib unit = ''SEC''
                   then
                     (let duration = (if toUpper lib unit = ''MIN''
                                      then wrap64 (value * 60000000000)
                                      else wrap64 (value * 1000000000))
                      in Inr (unixMilli lib
                                (if operator = ''+''
                                 then timeAdd lib (timeNow lib) duration
                                 else timeAdd lib (timeNow lib) (wrap64 (- duration)))))
                   else Inl UnsupportedTimeUnit))))"

definition SubstituteQuery ::
  "'t timelib \<Rightarrow> string \<Rightarrow> string \<Rightarrow> string \<Rightarrow> string \<Rightarrow> macro_error + string" where
  "SubstituteQuery lib startTime endTime query clusterName =
     (let result = ReplaceAll query ''__CLUSTER__'' clusterName in
      case (if Contains result ''__STARTTIME__''
            then (if startTime = '''' then Inl StartTimeNotConfigured
                  else (case parseTimeExpression lib startTime of
                          Inl err \<Rightarrow> Inl (FailedToParseStartTime err)
                        | Inr startTimeValue \<Rightarrow>
                            Inr (ReplaceAll result ''__STARTTIME__'' (show_int startTimeValue))))
            else Inr result) of
        Inl err \<Rightarrow> Inl err
      | Inr result \<Rightarrow>
          (if Contains result ''__ENDTIME__''
           then (if endTime = '''' then Inl EndTimeNotConfigured
                 else (case parseTimeExpression lib endTime of
                         Inl err \<Rightarrow> Inl (FailedToParseEndTime err)
                       | Inr endTimeValue \<Rightarrow>
                           Inr (ReplaceAll result ''__ENDTIME__'' (show_int endTimeValue))))
           else Inr result))"

text \<open>A library instance for the examples: ASCII trimming and upper-casing, and
  a clock that counts milliseconds (a duration is a whole number of
  milliseconds in every example).\<close>

definition upper_char :: "char \<Rightarrow> char" where
  "upper_char c =
     (if 97 \<le> (of_char c :: nat) \<and> (of_char c :: nat) \<le> 122
      then char_of ((of_char c :: nat) - 32) else c)"

definition ascii_space :: "char \<Rightarrow> bool" where
  "ascii_space c = (c \<in> set [CHR 0x09, CHR 0x0A, CHR 0x0B, CHR 0x0C, CHR 0x0D, CHR '' ''])"

definition ascii_lib :: "int \<Rightarrow> int timelib" where
  "ascii_lib now =
     \<lparr>trimSpace = (\<lambda>s. rev (dropWhile ascii_space (rev (dropWhile ascii_space s)))),
      toUpper = map upper_char,
      timeNow = now,
      timeAdd = (\<lambda>t d. t + d div 1000000),
      unixMilli = (\<lambda>t. t)\<rparr>"

text \<open>The time specs that \<open>parseTimeExpression\<close> accepts, and the value it
  returns for one (0 stands in where it returns an error).\<close>

definition parsable :: "'t timelib \<Rightarrow> string \<Rightarrow> bool" where
  "parsable lib spec =
     (toUpper lib (trimSpace lib spec) = ''NOW''
      \<or> (case nowPattern (toUpper lib (trimSpace lib spec)) of
            Some (operator, valueStr, unit) \<Rightarrow> decimal valueStr < 2 ^ 63
          | None \<Rightarrow> ParseInt (trimSpace lib spec) \<noteq> None))"

definition timeValue :: "'t timelib \<Rightarrow> string \<Rightarrow> int" where
  "timeValue lib spec = (case parseTimeExpression lib spec of Inl err \<Rightarrow> 0 | Inr v \<Rightarrow> v)"

text \<open>The query after each of the three substitutions.\<close>

definition afterCluster :: "string \<Rightarrow> string \<Rightarrow> string" where
  "afterCluster query clusterName = ReplaceAll query ''__CLUSTER__'' clusterName"

definition afterStart :: "'t timelib \<Rightarrow> string \<Rightarrow> string \<Rightarrow> string" where
  "afterStart lib startTime q = ReplaceAll q ''__STARTTIME__'' (show_int (timeValue lib startTime))"

definition afterEnd :: "'t timelib \<Rightarrow> string \<Rightarrow> string \<Rightarrow> string" where
  "afterEnd lib endTime q = ReplaceAll q ''__ENDTIME__'' (show_int (timeValue lib endTime))"

section \<open>Properties\<close>

subsection \<open>Association lists\<close>

lemma assign_fresh: "k \<notin> fst ` set r \<Longrightarrow> assign k v r = r @ [(k, v)]"
  by (induction r) auto

lemma keys_assign: "fst ` set (assign k v r) = insert k (fst ` set r)"
  by (induction r) auto

lemma keys_assign_all: "fst ` set (assign_all m r) = fst ` set m \<union> fst ` set r"
  unfolding assign_all_def
  by (induction m arbitrary: r) (auto simp: keys_assign)

lemma assign_all_fresh:
  "distinct (map fst m) \<Longrightarrow> fst ` set m \<inter> fst ` set r = {} \<Longrightarrow> assign_all m r = r @ m"
  unfolding assign_all_def
proof (induction m arbitrary: r)
  case Nil
  show ?case by simp
next
  case (Cons kv m)
  from Cons.prems have fresh: "fst kv \<notin> fst ` set r" by auto
  have step: "assign (fst kv) (snd kv) r = r @ [kv]"
    using assign_fresh [OF fresh, of "snd kv"] by simp
  from Cons.prems have "distinct (map fst m)"
    and "fst ` set m \<inter> fst ` set (r @ [kv]) = {}" by auto
  from Cons.IH [OF this] show ?case by (simp add: step)
qed

lemma map_of_assign: "map_of (assign k v g) = (map_of g)(k \<mapsto> v)"
  by (induction g) auto

lemma lookup_list_assign:
  "lookup_list (assign k v g) k' = (if k' = k then v else lookup_list g k')"
  by (simp add: lookup_list_def map_of_assign)

lemma keys_of_assign:
  "map fst (assign k v g) = (if k \<in> set (map fst g) then map fst g else map fst g @ [k])"
  by (induction g) auto

subsection \<open>History store\<close>

lemma slice_from_Inr:
  "slice_from s low = Inr kept \<Longrightarrow> 0 \<le> low \<and> low \<le> int (length s) \<and> kept = drop (nat low) s"
  by (simp add: slice_from_def split: if_splits)

lemma store_ok:
  assumes "0 \<le> PreviousResultsSets (config t)"
  shows "storePreviousResults t rs =
           Inr (t\<lparr>previousResults :=
                  drop (Suc (length (previousResults t)) - nat (PreviousResultsSets (config t)))
                       (previousResults t @ [rs])\<rparr>)"
proof -
  let ?P = "PreviousResultsSets (config t)"
  let ?n = "length (previousResults t)"
  show ?thesis
  proof (cases "int (Suc ?n) > ?P")
    case True
    with assms have "nat (int (Suc ?n) - ?P) = Suc ?n - nat ?P" by linarith
    with True assms show ?thesis
      by (simp add: storePreviousResults_def slice_from_def Let_def)
  next
    case False
    then have "Suc ?n - nat ?P = 0" by linarith
    with False show ?thesis
      by (simp add: storePreviousResults_def Let_def)
  qed
qed

lemma store_bound:
  assumes "storePreviousResults t rs = Inr t'"
  shows "int (length (previousResults t')) \<le> PreviousResultsSets (config t')
         \<and> config t' = config t"
  using assms
  by (auto simp: storePreviousResults_def Let_def split: if_splits sum.splits
           dest!: slice_from_Inr)

lemma update_ok:
  assumes "0 \<le> PreviousResultsSets cfg"
  shows "UpdateConfig t cfg =
           Inr (t\<lparr>config := cfg,
                  previousResults :=
                    drop (length (previousResults t) - nat (PreviousResultsSets cfg))
                         (previousResults t)\<rparr>)"
proof -
  let ?P = "PreviousResultsSets cfg"
  let ?n = "length (previousResults t)"
  show ?thesis
  proof (cases "int ?n > ?P")
    case True
    with assms have "nat (int ?n - ?P) = ?n - nat ?P" by linarith
    with True assms show ?thesis
      by (simp add: UpdateConfig_def slice_from_def Let_def)
  next
    case False
    then have "?n - nat ?P = 0" by linarith
    with False show ?thesis
      by (simp add: UpdateConfig_def Let_def)
  qed
qed

lemma update_bound:
  assumes "UpdateConfig t cfg = Inr t'"
  shows "int (length (previousResults t')) \<le> PreviousResultsSets (config t')
         \<and> config t' = cfg"
  using assms
  by (auto simp: UpdateConfig_def Let_def split: if_splits sum.splits
           dest!: slice_from_Inr)

text \<open>
  Claim C9. After every store and every configuration update that completes, the
  number of retained result sets is at most the configured
  \<open>previous_results_sets\<close>. For a non-negative limit both operations complete: a
  store keeps the last \<open>previous_results_sets\<close> elements of the old ring followed
  by the new set (the newest is at the end, the oldest are dropped), an update
  keeps the last \<open>previous_results_sets\<close> elements of the ring, and with a limit
  of zero the ring is empty after either operation.
\<close>

theorem history_ring_invariant:
  "(\<forall>t'. storePreviousResults t rs = Inr t' \<longrightarrow>
       int (length (previousResults t')) \<le> PreviousResultsSets (config t'))
   \<and> (\<forall>t'. UpdateConfig t cfg = Inr t' \<longrightarrow>
       int (length (previousResults t')) \<le> PreviousResultsSets (config t'))
   \<and> (0 \<le> PreviousResultsSets (config t) \<longrightarrow>
       (\<exists>t'. storePreviousResults t rs = Inr t'
          \<and> previousResults t' =
              drop (Suc (length (previousResults t)) - nat (PreviousResultsSets (config t)))
                   (previousResults t @ [rs])
          \<and> (PreviousResultsSets (config t) = 0 \<longrightarrow> previousResults t' = [])))
   \<and> (0 \<le> PreviousResultsSets cfg \<longrightarrow>
       (\<exists>t'. UpdateConfig t cfg = Inr t'
          \<and> previousResults t' =
              drop (length (previousResults t) - nat (PreviousResultsSets cfg))
                   (previousResults t)
          \<and> (PreviousResultsSets cfg = 0 \<longrightarrow> previousResults t' = [])))"
proof (intro conjI allI impI)
  fix t' assume "storePreviousResults t rs = Inr t'"
  then show "int (length (previousResults t')) \<le> PreviousResultsSets (config t')"
    using store_bound by blast
next
  fix t' assume "UpdateConfig t cfg = Inr t'"
  then show "int (length (previousResults t')) \<le> PreviousResultsSets (config t')"
    using update_bound by blast
next
  assume "0 \<le> PreviousResultsSets (config t)"
  then show "\<exists>t'. storePreviousResults t rs = Inr t'
          \<and> previousResults t' =
              drop (Suc (length (previousResults t)) - nat (PreviousResultsSets (config t)))
                   (previousResults t @ [rs])
          \<and> (PreviousResultsSets (config t) = 0 \<longrightarrow> previousResults t' = [])"
    by (simp add: store_ok)
next
  assume "0 \<le> PreviousResultsSets cfg"
  then show "\<exists>t'. UpdateConfig t cfg = Inr t'
          \<and> previousResults t' =
              drop (length (previousResults t) - nat (PreviousResultsSets cfg))
                   (previousResults t)
          \<and> (PreviousResultsSets cfg = 0 \<longrightarrow> previousResults t' = [])"
    by (simp add: update_ok)
qed

theorem history_ring_invariant_witness:
  "storePreviousResults
     \<lparr>config = \<lparr>Stateless = False, PreviousResultsSets = 2, OutputFormat = ''csv''\<rparr>,
      previousResults = [[1], [2 :: nat]]\<rparr> [3]
   = Inr \<lparr>config = \<lparr>Stateless = False, PreviousResultsSets = 2, OutputFormat = ''csv''\<rparr>,
          previousResults = [[2], [3]]\<rparr>
   \<and> UpdateConfig
     \<lparr>config = \<lparr>Stateless = False, PreviousResultsSets = 2, OutputFormat = ''csv''\<rparr>,
      previousResults = [[1], [2 :: nat]]\<rparr>
     \<lparr>Stateless = False, PreviousResultsSets = 1, OutputFormat = ''csv''\<rparr>
   = Inr \<lparr>config = \<lparr>Stateless = False, PreviousResultsSets = 1, OutputFormat = ''csv''\<rparr>,
          previousResults = [[2]]\<rparr>
   \<and> (0 :: int) \<le> 2 \<and> (0 :: int) \<le> 1"
  using history_ring_invariant
    [of "\<lparr>config = \<lparr>Stateless = False, PreviousResultsSets = 2, OutputFormat = ''csv''\<rparr>,
          previousResults = [[1], [2 :: nat]]\<rparr>" "[3]"
        "\<lparr>Stateless = False, PreviousResultsSets = 1, OutputFormat = ''csv''\<rparr>"]
  by (simp add: storePreviousResults_def UpdateConfig_def slice_from_def Let_def)

subsection \<open>Columniser\<close>

lemma fold_max_ge:
  "m0 \<le> fold (\<lambda>k m. if h k > m then h k else m) xs (m0::nat)
   \<and> (\<forall>k \<in> set xs. h k \<le> fold (\<lambda>k m. if h k > m then h k else m) xs m0)"
proof (induction xs arbitrary: m0)
  case Nil
  show ?case by simp
next
  case (Cons x xs)
  let ?m1 = "if h x > m0 then h x else m0"
  have a: "?m1 \<le> fold (\<lambda>k m. if h k > m then h k else m) xs ?m1"
    and b: "\<forall>k \<in> set xs. h k \<le> fold (\<lambda>k m. if h k > m then h k else m) xs ?m1"
    using Cons.IH [of ?m1] by blast+
  have "m0 \<le> ?m1" and "h x \<le> ?m1" by simp_all
  with a b show ?case by (auto simp del: fold_simps simp add: fold_Cons intro: order_trans)
qed

lemma set_fold_insert:
  "set (fold (\<lambda>k s. List.insert (g k) s) ks s0) = g ` set ks \<union> set s0"
  by (induction ks arbitrary: s0) auto

lemma distinct_fold_insert:
  "distinct s0 \<Longrightarrow> distinct (fold (\<lambda>k s. List.insert (g k) s) ks s0)"
  by (induction ks arbitrary: s0) auto

lemma set_fold_fold_insert:
  "set (fold (\<lambda>d s. fold (\<lambda>k s. List.insert (g k) s) (K d) s) ds s0)
     = (\<Union>d \<in> set ds. g ` set (K d)) \<union> set s0"
  by (induction ds arbitrary: s0) (auto simp: set_fold_insert)

lemma distinct_fold_fold_insert:
  "distinct s0 \<Longrightarrow> distinct (fold (\<lambda>d s. fold (\<lambda>k s. List.insert (g k) s) (K d) s) ds s0)"
  by (induction ds arbitrary: s0) (auto simp: distinct_fold_insert)

lemma analyzeUniqueKeys_sorted_dedup:
  "analyzeUniqueKeys results = sorted_list_of_set (removeArrayIndices ` (\<Union>data \<in> set results. fst ` set data))"
proof -
  let ?A = "remdups (concat (map (map fst) results))"
  let ?h = calculateKeyDepth
  let ?M = "fold (\<lambda>k m. if ?h k > m then ?h k else m) ?A 0"
  let ?K = "\<lambda>d. filter (\<lambda>k. ?h k = d) ?A"
  let ?U = "fold (\<lambda>depth s. fold (\<lambda>key s. List.insert (removeArrayIndices key) s) (?K depth) s)
                 [1..<Suc ?M] []"
  have A: "set ?A = (\<Union>data \<in> set results. fst ` set data)" by auto
  have depth: "1 \<le> ?h k \<and> ?h k \<le> ?M" if "k \<in> set ?A" for k
  proof
    show "1 \<le> ?h k" by (simp add: calculateKeyDepth_def)
    show "?h k \<le> ?M" using fold_max_ge [of 0 ?h ?A] that by blast
  qed
  have "set ?U = (\<Union>d \<in> set [1..<Suc ?M]. removeArrayIndices ` set (?K d))"
    by (simp only: set_fold_fold_insert) simp
  also have "\<dots> = removeArrayIndices ` set ?A"
  proof (intro set_eqI iffI)
    fix x assume "x \<in> (\<Union>d \<in> set [1..<Suc ?M]. removeArrayIndices ` set (?K d))"
    then show "x \<in> removeArrayIndices ` set ?A" by auto
  next
    fix x assume "x \<in> removeArrayIndices ` set ?A"
    then obtain k where k: "k \<in> set ?A" "x = removeArrayIndices k" by blast
    from depth [OF k(1)] have "?h k \<in> set [1..<Suc ?M]"
      by (simp only: set_upt atLeastLessThan_iff less_Suc_eq_le)
    moreover have "x \<in> removeArrayIndices ` set (?K (?h k))" using k by simp
    ultimately show "x \<in> (\<Union>d \<in> set [1..<Suc ?M]. removeArrayIndices ` set (?K d))"
      by blast
  qed
  finally have setU: "set ?U = removeArrayIndices ` (\<Union>data \<in> set results. fst ` set data)" by (simp only: A)
  have dU: "distinct ?U" by (rule distinct_fold_fold_insert) simp
  have "analyzeUniqueKeys results = sort ?U"
    by (simp add: analyzeUniqueKeys_def Let_def)
  also have "\<dots> = sorted_list_of_set (set ?U)"
    using dU by (simp add: sorted_list_of_set_sort_remdups distinct_remdups_id)
  finally show ?thesis by (simp only: setU)
qed

lemma length_combinations:
  "length (generateCombinationsRecursive paths arrayPaths cur)
     = prod_list (map (\<lambda>p. length (lookup_list arrayPaths p)) paths)"
proof (induction paths arbitrary: cur)
  case Nil
  show ?case by simp
next
  case (Cons p ps)
  show ?case
    by (simp add: length_concat comp_def Cons.IH sum_list_triv)
qed

lemma length_generateCSVRows:
  "length (generateCSVRows visit ff fo data hs) =
     (if findArrayPaths data = [] then 1
      else prod_list (map (\<lambda>p. length (lookup_list (findArrayPaths data) p))
                          (sort (map fst (findArrayPaths data)))))"
  by (simp add: generateCSVRows_def Let_def generateArrayCombinations_def length_combinations)

lemma row_length:
  "row \<in> set (generateCSVRows visit ff fo data hs) \<Longrightarrow> length row = length hs"
  by (auto simp: generateCSVRows_def Let_def split: if_splits)


text \<open>The number of rows in closed form: the product, over the non-empty array
  paths of the keys, of the number of distinct indices at the path. The empty
  path, which a key of a top-level array has, is not among them.\<close>

lemma arrayPaths_fold:
  fixes step :: "string \<Rightarrow> (string \<times> int list) list \<Rightarrow> (string \<times> int list) list"
  defines "step \<equiv> (\<lambda>key arrayPaths.
                case extractArrayPathAndIndex key of (path, index) \<Rightarrow>
                  if path \<noteq> ''''
                  then (if index \<in> set (lookup_list arrayPaths path)
                        then assign path (lookup_list arrayPaths path) arrayPaths
                        else assign path (lookup_list arrayPaths path @ [index]) arrayPaths)
                  else arrayPaths)"
  assumes "distinct (map fst acc)" and "\<forall>p. distinct (lookup_list acc p)"
  shows "distinct (map fst (fold step ks acc))
         \<and> (\<forall>p. distinct (lookup_list (fold step ks acc) p))
         \<and> set (map fst (fold step ks acc))
             = set (map fst acc)
               \<union> {p. p \<noteq> '''' \<and> p \<in> (fst \<circ> extractArrayPathAndIndex) ` set ks}
         \<and> (\<forall>p. set (lookup_list (fold step ks acc) p)
             = set (lookup_list acc p)
               \<union> {i. p \<noteq> '''' \<and> (p, i) \<in> extractArrayPathAndIndex ` set ks})"
  using assms(2,3)
proof (induction ks arbitrary: acc)
  case Nil
  then show ?case by simp
next
  case (Cons k ks)
  obtain path index where e: "extractArrayPathAndIndex k = (path, index)"
    by (cases "extractArrayPathAndIndex k") auto
  let ?acc' = "step k acc"
  have d1: "distinct (map fst ?acc')"
    using Cons.prems(1) e by (auto simp: step_def keys_of_assign)
  have d2: "\<forall>p. distinct (lookup_list ?acc' p)"
    using Cons.prems(2) e by (auto simp: step_def lookup_list_assign)
  have k1: "set (map fst ?acc') = set (map fst acc) \<union> {p. p \<noteq> '''' \<and> p = path}"
    using e by (auto simp: step_def keys_assign)
  have v1: "set (lookup_list ?acc' p)
              = set (lookup_list acc p) \<union> {i. p \<noteq> '''' \<and> (p, i) = (path, index)}" for p
    using e by (auto simp: step_def lookup_list_assign)
  from Cons.IH [OF d1 d2] have IH:
    "distinct (map fst (fold step ks ?acc'))"
    "\<forall>p. distinct (lookup_list (fold step ks ?acc') p)"
    "set (map fst (fold step ks ?acc'))
       = set (map fst ?acc') \<union> {p. p \<noteq> '''' \<and> p \<in> (fst \<circ> extractArrayPathAndIndex) ` set ks}"
    "\<forall>p. set (lookup_list (fold step ks ?acc') p)
       = set (lookup_list ?acc' p) \<union> {i. p \<noteq> '''' \<and> (p, i) \<in> extractArrayPathAndIndex ` set ks}"
    by blast+
  have keys: "set (map fst (fold step (k # ks) acc))
       = set (map fst acc)
         \<union> {p. p \<noteq> '''' \<and> p \<in> (fst \<circ> extractArrayPathAndIndex) ` set (k # ks)}"
    unfolding fold_simps IH(3) k1 using e by auto
  have vals: "set (lookup_list (fold step (k # ks) acc) p)
       = set (lookup_list acc p)
         \<union> {i. p \<noteq> '''' \<and> (p, i) \<in> extractArrayPathAndIndex ` set (k # ks)}" for p
  proof -
    have "set (lookup_list (fold step (k # ks) acc) p)
            = set (lookup_list ?acc' p)
              \<union> {i. p \<noteq> '''' \<and> (p, i) \<in> extractArrayPathAndIndex ` set ks}"
      using IH(4) by simp
    also have "\<dots> = set (lookup_list acc p)
              \<union> {i. p \<noteq> '''' \<and> (p, i) \<in> extractArrayPathAndIndex ` set (k # ks)}"
      unfolding v1 using e by auto
    finally show ?thesis .
  qed
  from IH(1,2) keys vals show ?case by simp
qed

lemma lookup_list_map_sort:
  "lookup_list (map (\<lambda>p. (fst p, sort (snd p))) acc) k = sort (lookup_list acc k)"
  by (induction acc) (auto simp: lookup_list_def)

lemma row_count_product:
  "length (generateCSVRows visit fmtFloat fmtOther data uniqueKeys)
     = (\<Prod>p \<in> {p. p \<noteq> '''' \<and> p \<in> (fst \<circ> extractArrayPathAndIndex) ` fst ` set data}.
          card {i. (p, i) \<in> extractArrayPathAndIndex ` fst ` set data})"
proof -
  let ?step = "\<lambda>key arrayPaths.
                case extractArrayPathAndIndex key of (path, index) \<Rightarrow>
                  if path \<noteq> ''''
                  then (if index \<in> set (lookup_list arrayPaths path)
                        then assign path (lookup_list arrayPaths path) arrayPaths
                        else assign path (lookup_list arrayPaths path @ [index]) arrayPaths)
                  else arrayPaths"
  let ?acc = "fold ?step (map fst data) []"
  let ?ap = "findArrayPaths data"
  let ?P = "{p. p \<noteq> '''' \<and> p \<in> (fst \<circ> extractArrayPathAndIndex) ` fst ` set data}"
  let ?I = "\<lambda>p. {i. (p, i) \<in> extractArrayPathAndIndex ` fst ` set data}"
  have ap: "?ap = map (\<lambda>p. (fst p, sort (snd p))) ?acc"
    by (simp add: findArrayPaths_def)
  have nil: "lookup_list ([] :: (string \<times> int list) list) p = []" for p
    by (simp add: lookup_list_def)
  have "distinct (map fst ([] :: (string \<times> int list) list))"
    and "\<forall>p. distinct (lookup_list ([] :: (string \<times> int list) list) p)"
    by (simp_all add: nil)
  note F = arrayPaths_fold [OF this, of "map fst data"]
  from F have dk: "distinct (map fst ?acc)" by blast
  from F have dv: "distinct (lookup_list ?acc p)" for p by blast
  from F have "set (map fst ?acc)
      = set (map fst ([] :: (string \<times> int list) list))
        \<union> {p. p \<noteq> '''' \<and> p \<in> (fst \<circ> extractArrayPathAndIndex) ` set (map fst data)}"
    by blast
  then have ks: "set (map fst ?acc) = ?P" by simp
  from F have "set (lookup_list ?acc p)
      = set (lookup_list ([] :: (string \<times> int list) list) p)
        \<union> {i. p \<noteq> '''' \<and> (p, i) \<in> extractArrayPathAndIndex ` set (map fst data)}" for p
    by blast
  then have vs: "set (lookup_list ?acc p) = {i. p \<noteq> '''' \<and> i \<in> ?I p}" for p
    by (simp add: nil)
  have keys_ap: "map fst ?ap = map fst ?acc" by (simp add: ap comp_def)
  have len: "length (lookup_list ?ap p) = card (?I p)" if "p \<in> ?P" for p
  proof -
    have "length (lookup_list ?ap p) = length (lookup_list ?acc p)"
      by (simp add: ap lookup_list_map_sort)
    also have "\<dots> = card (set (lookup_list ?acc p))"
      using dv [of p] by (simp add: distinct_card)
    also have "set (lookup_list ?acc p) = ?I p" using vs [of p] that by simp
    finally show ?thesis .
  qed
  have ds: "distinct (sort (map fst ?ap))" using dk by (simp add: keys_ap)
  have sP: "set (sort (map fst ?ap)) = ?P" unfolding keys_ap using ks by simp
  have "prod_list (map (\<lambda>p. length (lookup_list ?ap p)) (sort (map fst ?ap)))
          = (\<Prod>p \<in> set (sort (map fst ?ap)). length (lookup_list ?ap p))"
    using prod.distinct_set_conv_list [OF ds, of "\<lambda>p. length (lookup_list ?ap p)"]
    by (rule sym)
  also have "\<dots> = (\<Prod>p \<in> ?P. length (lookup_list ?ap p))"
    by (simp only: sP)
  also have "\<dots> = (\<Prod>p \<in> ?P. card (?I p))"
    by (rule prod.cong) (simp_all add: len)
  finally have prod: "prod_list (map (\<lambda>p. length (lookup_list ?ap p)) (sort (map fst ?ap)))
          = (\<Prod>p \<in> ?P. card (?I p))" .
  show ?thesis
  proof (cases "?ap = []")
    case True
    then have e: "?P = {}" using ks keys_ap by (metis list.map(1) list.set(1))
    from True have "length (generateCSVRows visit fmtFloat fmtOther data uniqueKeys) = 1"
      by (simp add: length_generateCSVRows)
    moreover have "(\<Prod>p \<in> ?P. card (?I p)) = 1" unfolding e by (rule prod.empty)
    ultimately show ?thesis by (simp only:)
  next
    case False
    then have "length (generateCSVRows visit fmtFloat fmtOther data uniqueKeys)
        = prod_list (map (\<lambda>p. length (lookup_list ?ap p)) (sort (map fst ?ap)))"
      by (simp add: length_generateCSVRows)
    with prod show ?thesis by (simp only:)
  qed
qed

lemma s2_array_paths:
  "findArrayPaths (s2_data f64) =
     [(''[0].hosts.buckets'', [0, 1]),
      (''[0].hosts.buckets[0].cpu_usage.buckets'', [0, 1]),
      (''[0].hosts.buckets[1].cpu_usage.buckets'', [0, 1]),
      (''[1].hosts.buckets'', [0, 1]),
      (''[1].hosts.buckets[0].cpu_usage.buckets'', [0, 1]),
      (''[1].hosts.buckets[1].cpu_usage.buckets'', [0, 1])]"
  by code_simp

lemma s2_headers:
  "analyzeUniqueKeys [s2_data f64] =
     [''.avg_response_time'', ''.doc_count'',
      ''.hosts.buckets.cpu_usage.buckets.idle'',
      ''.hosts.buckets.cpu_usage.buckets.system'',
      ''.hosts.buckets.cpu_usage.buckets.user'',
      ''.hosts.buckets.key'', ''.key'']"
  by code_simp

text \<open>
  Claim C1, evaluated on the code. On the flat map of the nested-array guide the
  columniser returns seven headers, each with a leading dot (the de-indexed form
  of \<open>[0].key\<close> is \<open>.key\<close>), in byte order, and 64 rows: one for every
  choice of an index at each of six array paths, the paths under \<open>[0]\<close> and
  under \<open>[1]\<close> being independent dimensions. The guide and the claim give the
  headers without the dot and 8 rows.
\<close>

theorem s2_tabulate_on_code:
  "analyzeUniqueKeys [s2_data f64] =
     [''.avg_response_time'', ''.doc_count'',
      ''.hosts.buckets.cpu_usage.buckets.idle'',
      ''.hosts.buckets.cpu_usage.buckets.system'',
      ''.hosts.buckets.cpu_usage.buckets.user'',
      ''.hosts.buckets.key'', ''.key'']
   \<and> length (generateCSVRows visit fmtFloat fmtOther (s2_data f64)
                (analyzeUniqueKeys [s2_data f64])) = 64"
proof
  show "analyzeUniqueKeys [s2_data f64] =
     [''.avg_response_time'', ''.doc_count'',
      ''.hosts.buckets.cpu_usage.buckets.idle'',
      ''.hosts.buckets.cpu_usage.buckets.system'',
      ''.hosts.buckets.cpu_usage.buckets.user'',
      ''.hosts.buckets.key'', ''.key'']"
    by (rule s2_headers)
  show "length (generateCSVRows visit fmtFloat fmtOther (s2_data f64)
                (analyzeUniqueKeys [s2_data f64])) = 64"
    unfolding length_generateCSVRows s2_array_paths
    by (simp add: lookup_list_def)
qed

text \<open>
  Claim C2, evaluated on the code. A flat map whose only array is the top-level
  one has keys \<open>[0].a\<close> and \<open>[1].a\<close>: the array path is the empty string, with
  the two indices 0 and 1. \<open>findArrayPaths\<close> takes the empty path for "no index
  in this key", records no array path, and one row is produced where the claim
  gives two, whatever the order in which the map is visited; its only cell holds
  the value of the key that the visit meets first.
\<close>

theorem top_level_array_one_row:
  "extractArrayPathAndIndex ''[0].a'' = ('''', 0)
   \<and> extractArrayPathAndIndex ''[1].a'' = ('''', 1)
   \<and> findArrayPaths [(''[0].a'', JInt 1), (''[1].a'', JInt 2)] = []
   \<and> length (generateCSVRows visit fmtFloat fmtOther [(''[0].a'', JInt 1), (''[1].a'', JInt 2)]
         (analyzeUniqueKeys [[(''[0].a'', JInt 1), (''[1].a'', JInt 2)]])) = 1
   \<and> generateCSVRows visitListed fmtFloat fmtOther [(''[0].a'', JInt 1), (''[1].a'', JInt 2)]
         (analyzeUniqueKeys [[(''[0].a'', JInt 1), (''[1].a'', JInt 2)]]) = [[''1'']]
   \<and> generateCSVRows visitReversed fmtFloat fmtOther [(''[0].a'', JInt 1), (''[1].a'', JInt 2)]
         (analyzeUniqueKeys [[(''[0].a'', JInt 1), (''[1].a'', JInt 2)]]) = [[''2'']]"
proof (intro conjI)
  show "extractArrayPathAndIndex ''[0].a'' = ('''', 0)" by code_simp
  show "extractArrayPathAndIndex ''[1].a'' = ('''', 1)" by code_simp
  show none: "findArrayPaths [(''[0].a'', JInt 1), (''[1].a'', JInt 2)] = []" by code_simp
  show "length (generateCSVRows visit fmtFloat fmtOther [(''[0].a'', JInt 1), (''[1].a'', JInt 2)]
         (analyzeUniqueKeys [[(''[0].a'', JInt 1), (''[1].a'', JInt 2)]])) = 1"
    unfolding length_generateCSVRows none by simp
  show "generateCSVRows visitListed fmtFloat fmtOther [(''[0].a'', JInt 1), (''[1].a'', JInt 2)]
         (analyzeUniqueKeys [[(''[0].a'', JInt 1), (''[1].a'', JInt 2)]]) = [[''1'']]"
    by code_simp
  show "generateCSVRows visitReversed fmtFloat fmtOther [(''[0].a'', JInt 1), (''[1].a'', JInt 2)]
         (analyzeUniqueKeys [[(''[0].a'', JInt 1), (''[1].a'', JInt 2)]]) = [[''2'']]"
    by code_simp
qed

text \<open>
  Claim C3, as the code has it. The columniser is called on a batch of flat
  maps, one for each endpoint result of a run, and derives one header vector
  for the batch: the sorted list, without duplicates, of the de-indexed keys of
  all flat maps of the batch. Its length is the number of distinct de-indexed
  keys of the batch, no header occurs twice, every flat map of the batch gets
  this header vector, and every row produced for any of them has exactly as
  many cells as there are headers. For a batch of one flat map the headers are
  the sorted de-indexed keys of that map, as many as it has distinct ones.
\<close>

theorem headers_sorted_dedup_rows_aligned:
  "convertToCSV visit fmtFloat fmtOther results
     = map (\<lambda>data. (analyzeUniqueKeys results,
                     generateCSVRows visit fmtFloat fmtOther data (analyzeUniqueKeys results)))
           results
   \<and> analyzeUniqueKeys results
       = sorted_list_of_set (removeArrayIndices ` (\<Union>data \<in> set results. fst ` set data))
   \<and> length (analyzeUniqueKeys results)
       = card (removeArrayIndices ` (\<Union>data \<in> set results. fst ` set data))
   \<and> distinct (analyzeUniqueKeys results)
   \<and> sorted (analyzeUniqueKeys results)
   \<and> (\<forall>data \<in> set results.
        \<forall>row \<in> set (generateCSVRows visit fmtFloat fmtOther data (analyzeUniqueKeys results)).
          length row = length (analyzeUniqueKeys results))
   \<and> analyzeUniqueKeys [single] = sorted_list_of_set (removeArrayIndices ` fst ` set single)
   \<and> length (analyzeUniqueKeys [single]) = card (removeArrayIndices ` fst ` set single)"
proof -
  let ?K = "removeArrayIndices ` (\<Union>data \<in> set results. fst ` set data)"
  have hs: "analyzeUniqueKeys results = sorted_list_of_set ?K"
    by (rule analyzeUniqueKeys_sorted_dedup)
  have len: "length (analyzeUniqueKeys results) = card ?K"
    unfolding hs by (rule sorted_list_of_set.length_sorted_key_list_of_set)
  have dist: "distinct (analyzeUniqueKeys results)"
    unfolding hs by (rule sorted_list_of_set.distinct_sorted_key_list_of_set)
  have srt: "sorted (analyzeUniqueKeys results)"
    unfolding hs by (rule sorted_list_of_set.sorted_sorted_key_list_of_set)
  have conv: "convertToCSV visit fmtFloat fmtOther results
     = map (\<lambda>data. (analyzeUniqueKeys results,
                     generateCSVRows visit fmtFloat fmtOther data (analyzeUniqueKeys results)))
           results"
    by (simp add: convertToCSV_def Let_def)
  have hs1: "analyzeUniqueKeys [single]
               = sorted_list_of_set (removeArrayIndices ` fst ` set single)"
    using analyzeUniqueKeys_sorted_dedup [of "[single]"] by simp
  have len1: "length (analyzeUniqueKeys [single]) = card (removeArrayIndices ` fst ` set single)"
    unfolding hs1 by (rule sorted_list_of_set.length_sorted_key_list_of_set)
  from conv hs len dist srt row_length hs1 len1 show ?thesis by blast
qed

text \<open>A batch of two flat maps, visited in list order.\<close>

theorem headers_sorted_dedup_rows_aligned_witness:
  "analyzeUniqueKeys
     [[(''hosts[0].name'', JString ''h1''), (''hosts[1].name'', JString ''h2''),
       (''service'', JString ''api'' :: unit jvalue)],
      [(''hosts[0].zone'', JString ''z1''), (''service'', JString ''web'')]]
     = [''hosts.name'', ''hosts.zone'', ''service'']
   \<and> convertToCSV visitListed unformatted unformatted
     [[(''hosts[0].name'', JString ''h1''), (''hosts[1].name'', JString ''h2''),
       (''service'', JString ''api'' :: unit jvalue)],
      [(''hosts[0].zone'', JString ''z1''), (''service'', JString ''web'')]]
     = [([''hosts.name'', ''hosts.zone'', ''service''],
         [[''h1'', '''', ''api''], [''h2'', '''', ''api'']]),
        ([''hosts.name'', ''hosts.zone'', ''service''],
         [['''', ''z1'', ''web'']])]
   \<and> map length [[''h1'', '''', ''api''], [''h2'', '''', ''api''], ['''', ''z1'', ''web'']]
     = [3, 3, 3]"
proof -
  let ?d1 = "[(''hosts[0].name'', JString ''h1''), (''hosts[1].name'', JString ''h2''),
              (''service'', JString ''api'' :: unit jvalue)]"
  let ?d2 = "[(''hosts[0].zone'', JString ''z1''), (''service'', JString ''web'' :: unit jvalue)]"
  let ?hs = "[''hosts.name'', ''hosts.zone'', ''service'']"
  note T = headers_sorted_dedup_rows_aligned
             [of visitListed unformatted unformatted "[?d1, ?d2]" "[]"]
  have hs: "analyzeUniqueKeys [?d1, ?d2] = ?hs" by code_simp
  have r1: "generateCSVRows visitListed unformatted unformatted ?d1 ?hs
              = [[''h1'', '''', ''api''], [''h2'', '''', ''api'']]"
    by code_simp
  have r2: "generateCSVRows visitListed unformatted unformatted ?d2 ?hs
              = [['''', ''z1'', ''web'']]"
    by code_simp
  have "convertToCSV visitListed unformatted unformatted [?d1, ?d2]
     = map (\<lambda>data. (analyzeUniqueKeys [?d1, ?d2],
                     generateCSVRows visitListed unformatted unformatted data
                       (analyzeUniqueKeys [?d1, ?d2])))
           [?d1, ?d2]"
    using T by (rule conjunct1)
  then have conv: "convertToCSV visitListed unformatted unformatted [?d1, ?d2]
     = [(?hs, [[''h1'', '''', ''api''], [''h2'', '''', ''api'']]),
        (?hs, [['''', ''z1'', ''web'']])]"
    by (simp only: hs r1 r2 list.map)
  from T have "\<forall>data \<in> set [?d1, ?d2].
      \<forall>row \<in> set (generateCSVRows visitListed unformatted unformatted data
                      (analyzeUniqueKeys [?d1, ?d2])).
        length row = length (analyzeUniqueKeys [?d1, ?d2])"
    by (elim conjE)
  then have "\<forall>data \<in> set [?d1, ?d2].
      \<forall>row \<in> set (generateCSVRows visitListed unformatted unformatted data ?hs).
        length row = length ?hs"
    unfolding hs .
  then have "(\<forall>row \<in> set (generateCSVRows visitListed unformatted unformatted ?d1 ?hs).
                length row = length ?hs)
           \<and> (\<forall>row \<in> set (generateCSVRows visitListed unformatted unformatted ?d2 ?hs).
                length row = length ?hs)"
    by simp
  then have len: "map length [[''h1'', '''', ''api''], [''h2'', '''', ''api''], ['''', ''z1'', ''web'']]
                    = [length ?hs, length ?hs, length ?hs]"
    unfolding r1 r2 by simp
  from hs conv len show ?thesis by simp
qed

text \<open>
  Claim C3 as stated fails for a flat map that is not alone in its batch: the
  flat map \<open>{a: 1}\<close> has one distinct de-indexed key, and in a batch with
  \<open>{b: 2}\<close> its header vector has two entries, \<open>a\<close> and \<open>b\<close>.
\<close>

theorem batch_headers_counterexample:
  "convertToCSV visitListed unformatted unformatted
     [[(''a'', JInt 1)], [(''b'', JInt 2 :: unit jvalue)]]
     = [([''a'', ''b''], [[''1'', '''']]), ([''a'', ''b''], [['''', ''2'']])]
   \<and> length (remdups (map removeArrayIndices (map fst [(''a'', JInt 1 :: unit jvalue)]))) = 1
   \<and> length [''a'', ''b''] \<noteq> 1"
  by code_simp

subsection \<open>Key filters\<close>

lemma include_then_exclude:
  "applyFilters compile matchString
     [\<lparr>Type = ''include'', Pattern = r\<rparr>, \<lparr>Type = ''exclude'', Pattern = r\<rparr>] data = []"
proof -
  let ?P = "\<lambda>kv. matchesFilter compile matchString (fst kv) r"
  have "\<forall>kv \<in> set (assign_all (filter ?P data) []). ?P kv"
  proof
    fix kv assume "kv \<in> set (assign_all (filter ?P data) [])"
    then have "fst kv \<in> fst ` set (filter ?P data)"
      using keys_assign_all [of "filter ?P data" "[]"] by auto
    then show "?P kv" by auto
  qed
  then have "\<forall>kv \<in> set (assign_all (filter ?P data) []). \<not> \<not> ?P kv"
    by blast
  then have "filter (\<lambda>kv. \<not> ?P kv) (assign_all (filter ?P data) []) = []"
    by (rule filter_False)
  then show ?thesis by (simp add: applyFilters_def Let_def)
qed

lemma exclude_then_include:
  assumes "distinct (map fst data)"
  shows "applyFilters compile matchString
     [\<lparr>Type = ''exclude'', Pattern = r\<rparr>, \<lparr>Type = ''include'', Pattern = r\<rparr>] data
     = filter (\<lambda>kv. matchesFilter compile matchString (fst kv) r) data"
proof -
  let ?P = "\<lambda>kv. matchesFilter compile matchString (fst kv) r"
  from assms have "distinct (map fst (filter ?P data))" by (rule distinct_map_filter)
  then have "assign_all (filter ?P data) [] = filter ?P data"
    using assign_all_fresh [of "filter ?P data" "[]"] by simp
  then show ?thesis by (simp add: applyFilters_def Let_def)
qed

text \<open>
  Claim C4. For every flat map and every pattern \<open>r\<close>, the filter list
  [include \<open>r\<close>, exclude \<open>r\<close>] yields the empty map and the list
  [exclude \<open>r\<close>, include \<open>r\<close>] yields exactly the entries whose keys match \<open>r\<close>;
  a pattern that does not compile matches a key exactly when the key equals the
  pattern.
\<close>

theorem filter_order_semantics:
  "applyFilters compile matchString
     [\<lparr>Type = ''include'', Pattern = r\<rparr>, \<lparr>Type = ''exclude'', Pattern = r\<rparr>] data = []
   \<and> (distinct (map fst data) \<longrightarrow>
        applyFilters compile matchString
          [\<lparr>Type = ''exclude'', Pattern = r\<rparr>, \<lparr>Type = ''include'', Pattern = r\<rparr>] data
        = filter (\<lambda>kv. matchesFilter compile matchString (fst kv) r) data)
   \<and> (compile r = None \<longrightarrow> matchesFilter compile matchString key r = (key = r))"
  using include_then_exclude [of compile matchString r data]
        exclude_then_include [of data compile matchString r]
  by (auto simp: matchesFilter_def)

text \<open>A stand-in for the library in the examples: a pattern is valid unless it is
  \<open>[\<close>, and a valid pattern matches the keys that start with it.\<close>

theorem filter_order_semantics_witness:
  "distinct (map fst [(''a.x'', JInt 1), (''b.y'', JInt 2), (''['', JInt 3 :: unit jvalue)])
   \<and> applyFilters (\<lambda>p. if p = ''['' then None else Some p) (\<lambda>rx key. HasPrefix key rx)
        [\<lparr>Type = ''exclude'', Pattern = ''a''\<rparr>, \<lparr>Type = ''include'', Pattern = ''a''\<rparr>]
        [(''a.x'', JInt 1), (''b.y'', JInt 2), (''['', JInt 3 :: unit jvalue)]
       = [(''a.x'', JInt 1)]
   \<and> (\<lambda>p. if p = ''['' then None else Some p) ''['' = (None :: string option)
   \<and> matchesFilter (\<lambda>p. if p = ''['' then None else Some p) (\<lambda>rx key. HasPrefix key rx)
        ''[0].a'' ''['' = False"
proof -
  let ?c = "\<lambda>p. if p = ''['' then None else Some p"
  let ?m = "\<lambda>rx key. HasPrefix key rx"
  let ?d = "[(''a.x'', JInt 1), (''b.y'', JInt 2), (''['', JInt 3 :: unit jvalue)]"
  have d: "distinct (map fst ?d)" by simp
  have c: "?c ''['' = (None :: string option)" by simp
  from filter_order_semantics [of ?c ?m "''a''" ?d "''[0].a''"] d
  have "applyFilters ?c ?m
          [\<lparr>Type = ''exclude'', Pattern = ''a''\<rparr>, \<lparr>Type = ''include'', Pattern = ''a''\<rparr>] ?d
        = filter (\<lambda>kv. matchesFilter ?c ?m (fst kv) ''a'') ?d"
    by blast
  moreover have "filter (\<lambda>kv. matchesFilter ?c ?m (fst kv) ''a'') ?d = [(''a.x'', JInt 1)]"
    by (simp add: matchesFilter_def HasPrefix_def)
  moreover from filter_order_semantics [of ?c ?m "''[''" ?d "''[0].a''"] c
  have "matchesFilter ?c ?m ''[0].a'' ''['' = (''[0].a'' = ''['')" by blast
  ultimately show ?thesis using d by simp
qed

subsection \<open>Flattening\<close>

lemma assign_twice: "assign k v (assign k w r) = assign k v r"
  by (induction r) auto

lemma assign_commute:
  "k \<noteq> k' \<Longrightarrow> k \<in> fst ` set r \<Longrightarrow>
   assign k v (assign k' v' r) = assign k' v' (assign k v r)"
  by (induction r) auto

lemma assign_past_assign_all:
  "k \<in> fst ` set r \<Longrightarrow> k \<notin> fst ` set xs \<Longrightarrow>
   assign k v (assign_all xs r) = assign_all xs (assign k v r)"
  unfolding assign_all_def
proof (induction xs arbitrary: r)
  case Nil
  show ?case by simp
next
  case (Cons x xs)
  from Cons.prems have ne: "k \<noteq> fst x" and nin: "k \<notin> fst ` set xs" by auto
  from Cons.prems(1) have kin: "k \<in> fst ` set (assign (fst x) (snd x) r)"
    by (simp add: keys_assign)
  have "assign k v (fold (\<lambda>kv. assign (fst kv) (snd kv)) (x # xs) r)
          = assign k v (fold (\<lambda>kv. assign (fst kv) (snd kv)) xs (assign (fst x) (snd x) r))"
    by simp
  also have "\<dots> = fold (\<lambda>kv. assign (fst kv) (snd kv)) xs
                      (assign k v (assign (fst x) (snd x) r))"
    using Cons.IH [OF kin nin] .
  also have "assign k v (assign (fst x) (snd x) r) = assign (fst x) (snd x) (assign k v r)"
    using ne Cons.prems(1) by (rule assign_commute)
  finally show ?case by simp
qed

lemma distinct_keys_assign:
  "distinct (map fst r) \<Longrightarrow> distinct (map fst (assign k v r))"
  by (simp add: keys_of_assign)

lemma assign_all_Cons: "assign_all (x # xs) r = assign_all xs (assign (fst x) (snd x) r)"
  by (simp add: assign_all_def)

lemma assign_all_append: "assign_all (xs @ ys) r = assign_all ys (assign_all xs r)"
  by (simp add: assign_all_def)

lemma assign_into_source:
  "distinct (map fst acc) \<Longrightarrow> assign_all (assign k v acc) r = assign k v (assign_all acc r)"
proof (induction acc arbitrary: r)
  case Nil
  show ?case by (simp add: assign_all_def)
next
  case (Cons a acc)
  show ?case
  proof (cases "fst a = k")
    case True
    from Cons.prems True have nin: "k \<notin> fst ` set acc" by auto
    have kin: "k \<in> fst ` set (assign k (snd a) r)" by (simp add: keys_assign)
    have "assign_all (assign k v (a # acc)) r = assign_all acc (assign k v r)"
      using True by (simp add: assign_all_Cons)
    also have "\<dots> = assign_all acc (assign k v (assign k (snd a) r))"
      by (simp add: assign_twice)
    also have "\<dots> = assign k v (assign_all acc (assign k (snd a) r))"
      using assign_past_assign_all [OF kin nin] by simp
    also have "\<dots> = assign k v (assign_all (a # acc) r)"
      using True by (simp add: assign_all_Cons)
    finally show ?thesis .
  next
    case False
    from Cons.prems have "distinct (map fst acc)" by simp
    from Cons.IH [OF this] False show ?thesis by (simp add: assign_all_Cons)
  qed
qed

lemma distinct_keys_assign_all:
  "distinct (map fst r) \<Longrightarrow> distinct (map fst (assign_all xs r))"
  unfolding assign_all_def
  by (induction xs arbitrary: r) (simp_all add: distinct_keys_assign)

lemma assign_all_merged:
  "distinct (map fst acc) \<Longrightarrow>
   assign_all (assign_all xs acc) r = assign_all xs (assign_all acc r)"
proof (induction xs arbitrary: acc)
  case Nil
  show ?case by (simp add: assign_all_def)
next
  case (Cons x xs)
  from Cons.prems have d: "distinct (map fst (assign (fst x) (snd x) acc))"
    by (rule distinct_keys_assign)
  have "assign_all (assign_all (x # xs) acc) r
          = assign_all (assign_all xs (assign (fst x) (snd x) acc)) r"
    by (simp add: assign_all_Cons)
  also have "\<dots> = assign_all xs (assign_all (assign (fst x) (snd x) acc) r)"
    using Cons.IH [OF d] .
  also have "\<dots> = assign_all xs (assign (fst x) (snd x) (assign_all acc r))"
    using assign_into_source [OF Cons.prems] by simp
  finally show ?case by (simp add: assign_all_Cons)
qed

lemma assign_all_of_merged: "assign_all (assign_all xs []) r = assign_all xs r"
  using assign_all_merged [of "[]" xs r] by (simp add: assign_all_def)

text \<open>The flat map is the list of the bindings of the rules, read as
  assignments: a later binding of a key replaces the earlier one.\<close>

lemma flatten_refines_rules:
  "flattenJSON (v :: 'f jvalue) prefix = assign_all (leaves v prefix) []"
  "flattenFields (kvs :: (string \<times> 'f jvalue) list) prefix result
     = assign_all (leavesFields kvs prefix) result"
  "flattenItems (items :: 'f jvalue list) prefix i result
     = assign_all (leavesItems items prefix i) result"
proof (induction v prefix and kvs prefix result and items prefix i result
       rule: flattenJSON_flattenFields_flattenItems.induct)
  case (1 v prefix)
  then show ?case by (simp add: collapses_def bindKey_def assign_all_def)
next
  case (2 v prefix)
  then show ?case by simp
next
  case (9 kv rest prefix result)
  have "flattenFields (kv # rest) prefix result
          = assign_all (leavesFields rest prefix)
              (assign_all (assign_all (leaves (snd kv) (childKey prefix (fst kv))) []) result)"
    using 9 by (simp add: childKey_def)
  then show ?case by (simp add: assign_all_of_merged assign_all_append)
next
  case (11 item rest prefix i result)
  have "flattenItems (item # rest) prefix i result
          = assign_all (leavesItems rest prefix (Suc i))
              (assign_all (assign_all (leaves item (itemKey prefix i)) []) result)"
    using 11 by (simp add: itemKey_def)
  then show ?case by (simp add: assign_all_of_merged assign_all_append)
qed (simp_all add: bindKey_def assign_all_def)

lemma visited_self: "(v, prefix) \<in> set (visited v prefix)"
  by (cases v) simp_all

lemma visited_child:
  "(k, c) \<in> set kvs \<Longrightarrow> (c, childKey prefix k) \<in> set (visitedFields kvs prefix)"
  by (induction kvs) (auto simp: visited_self)

lemma visited_leaves:
  "(w, q) \<in> set (visited (v :: 'f jvalue) prefix) \<Longrightarrow>
     set (leaves w q) \<subseteq> set (leaves v prefix)"
  "(w, q) \<in> set (visitedFields (kvs :: (string \<times> 'f jvalue) list) prefix) \<Longrightarrow>
     set (leaves w q) \<subseteq> set (leavesFields kvs prefix)"
  "(w, q) \<in> set (visitedItems (items :: 'f jvalue list) prefix i) \<Longrightarrow>
     set (leaves w q) \<subseteq> set (leavesItems items prefix i)"
proof (induction v prefix and kvs prefix and items prefix i
       rule: visited_visitedFields_visitedItems.induct)
  case (1 kvs prefix)
  then show ?case by (auto split: if_splits)
next
  case (2 items prefix)
  then show ?case by auto
next
  case (9 kv rest prefix)
  then show ?case by auto
next
  case (11 item rest prefix i)
  then show ?case by auto
qed auto

lemma visited_trans:
  "(w, q) \<in> set (visited (v :: 'f jvalue) prefix) \<Longrightarrow>
     set (visited w q) \<subseteq> set (visited v prefix)"
  "(w, q) \<in> set (visitedFields (kvs :: (string \<times> 'f jvalue) list) prefix) \<Longrightarrow>
     set (visited w q) \<subseteq> set (visitedFields kvs prefix)"
  "(w, q) \<in> set (visitedItems (items :: 'f jvalue list) prefix i) \<Longrightarrow>
     set (visited w q) \<subseteq> set (visitedItems items prefix i)"
proof (induction v prefix and kvs prefix and items prefix i
       rule: visited_visitedFields_visitedItems.induct)
  case (1 kvs prefix)
  then show ?case by (auto split: if_splits)
next
  case (2 items prefix)
  then show ?case by auto
next
  case (9 kv rest prefix)
  then show ?case by auto
next
  case (11 item rest prefix i)
  then show ?case by auto
qed auto

lemma HasPrefix_append:
  assumes "HasPrefix key (p @ s)"
  shows "HasPrefix key p"
proof -
  from assms have h: "take (length (p @ s)) key = p @ s" by (simp add: HasPrefix_def)
  have "take (length p) key = take (length p) (take (length (p @ s)) key)"
    by (simp add: min_def)
  also have "\<dots> = p" unfolding h by simp
  finally show ?thesis by (simp add: HasPrefix_def)
qed

lemma leaves_keys_extend_prefix:
  "prefix \<noteq> '''' \<Longrightarrow> (key, x) \<in> set (leaves (v :: 'f jvalue) prefix) \<Longrightarrow>
     HasPrefix key prefix"
  "prefix \<noteq> '''' \<Longrightarrow>
     (key, x) \<in> set (leavesFields (kvs :: (string \<times> 'f jvalue) list) prefix) \<Longrightarrow>
     HasPrefix key (prefix @ ''.'')"
  "(key, x) \<in> set (leavesItems (items :: 'f jvalue list) prefix i) \<Longrightarrow>
     HasPrefix key (prefix @ ''['')"
proof (induction v prefix and kvs prefix and items prefix i
       arbitrary: key x and key x and key x
       rule: leaves_leavesFields_leavesItems.induct)
  case (1 kvs prefix)
  show ?case
  proof (cases "collapses kvs")
    case True
    with 1(3) have "key = bindKey prefix" by simp
    with 1(2) show ?thesis by (simp add: bindKey_def HasPrefix_def)
  next
    case False
    with 1(3) have "(key, x) \<in> set (leavesFields kvs prefix)" by simp
    from 1(1) [OF False 1(2) this] show ?thesis by (rule HasPrefix_append)
  qed
next
  case (2 items prefix)
  from 2(3) have "(key, x) \<in> set (leavesItems items prefix 0)" by simp
  from 2(1) [OF this] show ?case by (rule HasPrefix_append)
next
  case (9 kv rest prefix)
  from 9(4) consider "(key, x) \<in> set (leaves (snd kv) (childKey prefix (fst kv)))"
    | "(key, x) \<in> set (leavesFields rest prefix)" by auto
  then show ?case
  proof cases
    case 1
    from 9(3) have ck: "childKey prefix (fst kv) = (prefix @ ''.'') @ fst kv"
      and ne: "childKey prefix (fst kv) \<noteq> ''''"
      by (simp_all add: childKey_def)
    from 9(1) [OF ne 1] have "HasPrefix key ((prefix @ ''.'') @ fst kv)" unfolding ck .
    then show ?thesis by (rule HasPrefix_append)
  next
    case 2
    with 9(2) [OF 9(3)] show ?thesis by blast
  qed
next
  case (11 item rest prefix i)
  from 11(3) consider "(key, x) \<in> set (leaves item (itemKey prefix i))"
    | "(key, x) \<in> set (leavesItems rest prefix (Suc i))" by auto
  then show ?case
  proof cases
    case 1
    have ik: "itemKey prefix i = (prefix @ ''['') @ show_nat i @ '']''"
      and ne: "itemKey prefix i \<noteq> ''''"
      by (simp_all add: itemKey_def)
    from 11(1) [OF ne 1] have "HasPrefix key ((prefix @ ''['') @ show_nat i @ '']'')"
      unfolding ik .
    then show ?thesis by (rule HasPrefix_append)
  next
    case 2
    with 11(2) show ?thesis by blast
  qed
qed (auto simp: bindKey_def HasPrefix_def)

lemma regular_object_prefix_unbound:
  assumes "q \<noteq> ''''" and "\<not> collapses kvs"
  shows "q \<notin> fst ` set (leaves (JObject kvs) q)"
proof
  assume "q \<in> fst ` set (leaves (JObject kvs) q)"
  then obtain x where "(q, x) \<in> set (leavesFields kvs q)" using assms(2) by auto
  from leaves_keys_extend_prefix(2) [OF assms(1) this]
  have "take (length (q @ ''.'')) q = q @ ''.''" by (simp add: HasPrefix_def)
  then have "length (take (length (q @ ''.'')) q) = length (q @ ''.'')" by (rule arg_cong)
  then show False by simp
qed

lemma set_assign_subset: "set (assign k v r) \<subseteq> insert (k, v) (set r)"
  by (induction r) auto

lemma set_assign_all_subset: "set (assign_all xs r) \<subseteq> set xs \<union> set r"
  unfolding assign_all_def
proof (induction xs arbitrary: r)
  case Nil
  show ?case by simp
next
  case (Cons x xs)
  have "set (fold (\<lambda>kv. assign (fst kv) (snd kv)) xs (assign (fst x) (snd x) r))
          \<subseteq> set xs \<union> set (assign (fst x) (snd x) r)"
    by (rule Cons.IH)
  also have "\<dots> \<subseteq> set xs \<union> insert (fst x, snd x) (set r)"
    using set_assign_subset [of "fst x" "snd x" r] by blast
  finally show ?case by auto
qed

lemma flatten_keys: "fst ` set (flattenJSON v prefix) = fst ` set (leaves v prefix)"
  by (simp add: flatten_refines_rules(1) keys_assign_all)

lemma flatten_bindings: "set (flattenJSON v prefix) \<subseteq> set (leaves v prefix)"
  using set_assign_all_subset [of "leaves v prefix" "[]"] by (simp add: flatten_refines_rules(1))

lemma flatten_distinct:
  "distinct (map fst (leaves v prefix)) \<Longrightarrow> flattenJSON v prefix = leaves v prefix"
  using assign_all_fresh [of "leaves v prefix" "[]"] by (simp add: flatten_refines_rules(1))

lemma regular_object_keys:
  "fst ` set (leavesFields kvs p)
     = (\<Union>kc \<in> set kvs. fst ` set (flattenJSON (snd kc) (childKey p (fst kc))))"
  by (induction kvs) (simp_all add: image_Un flatten_keys)

text \<open>
  Claim C5. While a value is flattened from a prefix, every object that is met
  with exactly one key, lower-cased \<open>value\<close>, collapses: alone it flattens to
  the one binding of its child, unflattened, at the current prefix (at the
  key \<open>value\<close> when the prefix is empty), and inside a larger value that key is
  a key of the flat map, bound to the child when no two bindings share a key.
  Every other object that is met, among them each object with a \<open>value\<close> key
  and sibling keys, is flattened normally: its keys are those of its children,
  each flattened under \<open>prefix.key\<close>; its own non-empty prefix is not bound;
  each child is met in turn and contributes its keys, and without a shared
  key its bindings, to the flat map. The flat map as a whole is the list of
  the bindings of the rules, a later binding of a key replacing an earlier
  one.
\<close>

theorem value_collapse:
  "(ToLower key = ''value'' \<longrightarrow>
      flattenJSON (JObject [(key, child)]) q = [(bindKey q, child)])
   \<and> ((JObject [(key, child)], q) \<in> set (visited v prefix) \<and> ToLower key = ''value'' \<longrightarrow>
        bindKey q \<in> fst ` set (flattenJSON v prefix)
        \<and> (distinct (map fst (leaves v prefix)) \<longrightarrow>
             map_of (flattenJSON v prefix) (bindKey q) = Some child))
   \<and> ((JObject kvs, p) \<in> set (visited v prefix)
        \<and> (length kvs \<noteq> 1 \<or> ToLower (fst (hd kvs)) \<noteq> ''value'') \<longrightarrow>
        fst ` set (flattenJSON (JObject kvs) p)
          = (\<Union>kc \<in> set kvs. fst ` set (flattenJSON (snd kc) (childKey p (fst kc))))
        \<and> (p \<noteq> '''' \<longrightarrow> p \<notin> fst ` set (flattenJSON (JObject kvs) p))
        \<and> ((k, c) \<in> set kvs \<longrightarrow>
             (c, childKey p k) \<in> set (visited v prefix)
             \<and> fst ` set (flattenJSON c (childKey p k)) \<subseteq> fst ` set (flattenJSON v prefix)
             \<and> (distinct (map fst (leaves v prefix)) \<longrightarrow>
                  set (flattenJSON c (childKey p k)) \<subseteq> set (flattenJSON v prefix))))
   \<and> flattenJSON v prefix = assign_all (leaves v prefix) []
   \<and> (distinct (map fst (leaves v prefix)) \<longrightarrow> flattenJSON v prefix = leaves v prefix)"
proof (intro conjI impI)
  assume "ToLower key = ''value''"
  then show "flattenJSON (JObject [(key, child)]) q = [(bindKey q, child)]"
    by (simp add: bindKey_def)
next
  assume a: "(JObject [(key, child)], q) \<in> set (visited v prefix) \<and> ToLower key = ''value''"
  then have "set (leaves (JObject [(key, child)]) q) \<subseteq> set (leaves v prefix)"
    using visited_leaves(1) by blast
  with a have "(bindKey q, child) \<in> set (leaves v prefix)" by (simp add: collapses_def)
  then have "fst (bindKey q, child) \<in> fst ` set (leaves v prefix)" by (rule imageI)
  then show "bindKey q \<in> fst ` set (flattenJSON v prefix)" by (simp add: flatten_keys)
next
  assume a: "(JObject [(key, child)], q) \<in> set (visited v prefix) \<and> ToLower key = ''value''"
    and d: "distinct (map fst (leaves v prefix))"
  from a have "set (leaves (JObject [(key, child)]) q) \<subseteq> set (leaves v prefix)"
    using visited_leaves(1) by blast
  with a have "(bindKey q, child) \<in> set (leaves v prefix)" by (simp add: collapses_def)
  with d have "map_of (leaves v prefix) (bindKey q) = Some child" by (rule map_of_is_SomeI)
  then show "map_of (flattenJSON v prefix) (bindKey q) = Some child"
    by (simp add: flatten_distinct [OF d])
next
  assume a: "(JObject kvs, p) \<in> set (visited v prefix)
             \<and> (length kvs \<noteq> 1 \<or> ToLower (fst (hd kvs)) \<noteq> ''value'')"
  then have n: "\<not> collapses kvs" by (auto simp: collapses_def)
  have "fst ` set (flattenJSON (JObject kvs) p) = fst ` set (leaves (JObject kvs) p)"
    by (rule flatten_keys)
  also have "leaves (JObject kvs) p = leavesFields kvs p" using n by simp
  finally show "fst ` set (flattenJSON (JObject kvs) p)
          = (\<Union>kc \<in> set kvs. fst ` set (flattenJSON (snd kc) (childKey p (fst kc))))"
    by (simp only: regular_object_keys)
next
  assume a: "(JObject kvs, p) \<in> set (visited v prefix)
             \<and> (length kvs \<noteq> 1 \<or> ToLower (fst (hd kvs)) \<noteq> ''value'')"
    and p: "p \<noteq> ''''"
  from a have n: "\<not> collapses kvs" by (auto simp: collapses_def)
  from regular_object_prefix_unbound [OF p n]
  show "p \<notin> fst ` set (flattenJSON (JObject kvs) p)" unfolding flatten_keys .
next
  assume a: "(JObject kvs, p) \<in> set (visited v prefix)
             \<and> (length kvs \<noteq> 1 \<or> ToLower (fst (hd kvs)) \<noteq> ''value'')"
    and kc: "(k, c) \<in> set kvs"
  from a have n: "\<not> collapses kvs" by (auto simp: collapses_def)
  from visited_child [OF kc] n have "(c, childKey p k) \<in> set (visited (JObject kvs) p)" by simp
  moreover from a have "set (visited (JObject kvs) p) \<subseteq> set (visited v prefix)"
    using visited_trans(1) by blast
  ultimately show "(c, childKey p k) \<in> set (visited v prefix)" by blast
next
  assume a: "(JObject kvs, p) \<in> set (visited v prefix)
             \<and> (length kvs \<noteq> 1 \<or> ToLower (fst (hd kvs)) \<noteq> ''value'')"
    and kc: "(k, c) \<in> set kvs"
  from a have n: "\<not> collapses kvs" by (auto simp: collapses_def)
  from visited_child [OF kc] n have "(c, childKey p k) \<in> set (visited (JObject kvs) p)" by simp
  moreover from a have "set (visited (JObject kvs) p) \<subseteq> set (visited v prefix)"
    using visited_trans(1) by blast
  ultimately have "(c, childKey p k) \<in> set (visited v prefix)" by blast
  then have "set (leaves c (childKey p k)) \<subseteq> set (leaves v prefix)" by (rule visited_leaves(1))
  then have "fst ` set (leaves c (childKey p k)) \<subseteq> fst ` set (leaves v prefix)"
    by (rule image_mono)
  then show "fst ` set (flattenJSON c (childKey p k)) \<subseteq> fst ` set (flattenJSON v prefix)"
    unfolding flatten_keys .
next
  assume a: "(JObject kvs, p) \<in> set (visited v prefix)
             \<and> (length kvs \<noteq> 1 \<or> ToLower (fst (hd kvs)) \<noteq> ''value'')"
    and kc: "(k, c) \<in> set kvs"
    and d: "distinct (map fst (leaves v prefix))"
  from a have n: "\<not> collapses kvs" by (auto simp: collapses_def)
  from visited_child [OF kc] n have "(c, childKey p k) \<in> set (visited (JObject kvs) p)" by simp
  moreover from a have "set (visited (JObject kvs) p) \<subseteq> set (visited v prefix)"
    using visited_trans(1) by blast
  ultimately have "(c, childKey p k) \<in> set (visited v prefix)" by blast
  then have "set (leaves c (childKey p k)) \<subseteq> set (leaves v prefix)" by (rule visited_leaves(1))
  with flatten_bindings [of c "childKey p k"]
  have "set (flattenJSON c (childKey p k)) \<subseteq> set (leaves v prefix)" by (rule subset_trans)
  then show "set (flattenJSON c (childKey p k)) \<subseteq> set (flattenJSON v prefix)"
    unfolding flatten_distinct [OF d] .
next
  show "flattenJSON v prefix = assign_all (leaves v prefix) []"
    by (rule flatten_refines_rules(1))
next
  assume "distinct (map fst (leaves v prefix))"
  then show "flattenJSON v prefix = leaves v prefix" by (rule flatten_distinct)
qed

theorem value_collapse_witness:
  "ToLower ''Value'' = ''value''
   \<and> flattenJSON (JObject [(''Value'', JInt 1 :: unit jvalue)]) ''buckets[0]''
       = [(''buckets[0]'', JInt 1)]
   \<and> (JObject [(''Value'', JInt 1)], ''buckets[0]'')
       \<in> set (visited (JObject [(''buckets'', JArray [JObject [(''Value'', JInt 1 :: unit jvalue)],
                  JObject [(''value'', JInt 2), (''count'', JInt 3)]])]) '''')
   \<and> distinct (map fst (leaves (JObject [(''buckets'', JArray [JObject [(''Value'', JInt 1 :: unit jvalue)],
                  JObject [(''value'', JInt 2), (''count'', JInt 3)]])]) ''''))
   \<and> ''buckets[0]''
       \<in> fst ` set (flattenJSON (JObject [(''buckets'', JArray [JObject [(''Value'', JInt 1 :: unit jvalue)],
                  JObject [(''value'', JInt 2), (''count'', JInt 3)]])]) '''')
   \<and> map_of (flattenJSON (JObject [(''buckets'', JArray [JObject [(''Value'', JInt 1 :: unit jvalue)],
                  JObject [(''value'', JInt 2), (''count'', JInt 3)]])]) '''') ''buckets[0]''
       = Some (JInt 1)
   \<and> (JObject [(''value'', JInt 2), (''count'', JInt 3)], ''buckets[1]'')
       \<in> set (visited (JObject [(''buckets'', JArray [JObject [(''Value'', JInt 1 :: unit jvalue)],
                  JObject [(''value'', JInt 2), (''count'', JInt 3)]])]) '''')
   \<and> length [(''value'', JInt 2), (''count'', JInt 3 :: unit jvalue)] \<noteq> 1
   \<and> fst ` set (flattenJSON (JObject [(''value'', JInt 2), (''count'', JInt 3 :: unit jvalue)])
                  ''buckets[1]'')
       = {''buckets[1].value'', ''buckets[1].count''}
   \<and> ''buckets[1]''
       \<notin> fst ` set (flattenJSON (JObject [(''value'', JInt 2), (''count'', JInt 3 :: unit jvalue)])
                      ''buckets[1]'')
   \<and> (JInt 2, ''buckets[1].value'')
       \<in> set (visited (JObject [(''buckets'', JArray [JObject [(''Value'', JInt 1 :: unit jvalue)],
                  JObject [(''value'', JInt 2), (''count'', JInt 3)]])]) '''')
   \<and> (''buckets[1].value'', JInt 2)
       \<in> set (flattenJSON (JObject [(''buckets'', JArray [JObject [(''Value'', JInt 1 :: unit jvalue)],
                  JObject [(''value'', JInt 2), (''count'', JInt 3)]])]) '''')
   \<and> flattenJSON (JObject [(''buckets'', JArray [JObject [(''Value'', JInt 1 :: unit jvalue)],
                  JObject [(''value'', JInt 2), (''count'', JInt 3)]])]) ''''
       = [(''buckets[0]'', JInt 1), (''buckets[1].value'', JInt 2), (''buckets[1].count'', JInt 3)]"
proof -
  define kvs where "kvs = [(''value'', JInt 2), (''count'', JInt 3 :: unit jvalue)]"
  define one where "one = JObject [(''Value'', JInt 1 :: unit jvalue)]"
  define doc where "doc = JObject [(''buckets'', JArray [one, JObject kvs])]"
  note T = value_collapse [where key = "''Value''" and child = "JInt 1" and q = "''buckets[0]''"
      and v = doc and prefix = "''''" and kvs = kvs and p = "''buckets[1]''"
      and k = "''value''" and c = "JInt 2"]
  note T1 = T [THEN conjunct1]
  note T2 = T [THEN conjunct2, THEN conjunct1]
  note T3 = T [THEN conjunct2, THEN conjunct2, THEN conjunct1]
  note T5 = T [THEN conjunct2, THEN conjunct2, THEN conjunct2, THEN conjunct2]
  have h1: "ToLower ''Value'' = ''value''" by code_simp
  have h2: "(JObject [(''Value'', JInt 1)], ''buckets[0]'') \<in> set (visited doc '''')"
    unfolding doc_def one_def kvs_def by code_simp
  have h3: "distinct (map fst (leaves doc ''''))"
    unfolding doc_def one_def kvs_def by code_simp
  have h4: "(JObject kvs, ''buckets[1]'') \<in> set (visited doc '''')"
    unfolding doc_def one_def kvs_def by code_simp
  have h5: "length kvs \<noteq> 1" by (simp add: kvs_def)
  have h6: "(''value'', JInt 2) \<in> set kvs" by (simp add: kvs_def)
  have b: "bindKey ''buckets[0]'' = ''buckets[0]''" by (simp add: bindKey_def)
  have ck: "childKey ''buckets[1]'' ''value'' = ''buckets[1].value''" by (simp add: childKey_def)
  have l: "leaves doc ''''
             = [(''buckets[0]'', JInt 1), (''buckets[1].value'', JInt 2),
                (''buckets[1].count'', JInt 3)]"
    unfolding doc_def one_def kvs_def by code_simp
  have u: "(\<Union>kc \<in> set kvs. fst ` set (flattenJSON (snd kc) (childKey ''buckets[1]'' (fst kc))))
             = {''buckets[1].value'', ''buckets[1].count''}"
    by (auto simp: kvs_def childKey_def)
  have f: "flattenJSON (JInt 2 :: unit jvalue) ''buckets[1].value'' = [(''buckets[1].value'', JInt 2)]"
    by simp
  from T1 h1 have c1: "flattenJSON (JObject [(''Value'', JInt 1 :: unit jvalue)]) ''buckets[0]''
                         = [(bindKey ''buckets[0]'', JInt 1)]"
    by (rule mp)
  from T2 h2 h1 have c2: "bindKey ''buckets[0]'' \<in> fst ` set (flattenJSON doc '''')"
    and c3': "distinct (map fst (leaves doc '''')) \<longrightarrow>
              map_of (flattenJSON doc '''') (bindKey ''buckets[0]'') = Some (JInt 1)"
    by blast+
  from c3' h3 have c3: "map_of (flattenJSON doc '''') (bindKey ''buckets[0]'') = Some (JInt 1)"
    by (rule mp)
  from h4 h5 have h45: "(JObject kvs, ''buckets[1]'') \<in> set (visited doc '''')
      \<and> (length kvs \<noteq> 1 \<or> ToLower (fst (hd kvs)) \<noteq> ''value'')" by blast
  note R = T3 [THEN mp, OF h45]
  note R1 = R [THEN conjunct1]
  note R2 = R [THEN conjunct2, THEN conjunct1, THEN mp]
  note R3 = R [THEN conjunct2, THEN conjunct2, THEN mp, OF h6]
  have c4: "fst ` set (flattenJSON (JObject kvs) ''buckets[1]'')
              = {''buckets[1].value'', ''buckets[1].count''}"
    using R1 unfolding u .
  have c5: "''buckets[1]'' \<notin> fst ` set (flattenJSON (JObject kvs) ''buckets[1]'')"
    by (rule R2) simp
  have c6: "(JInt 2, ''buckets[1].value'') \<in> set (visited doc '''')"
    using R3 [THEN conjunct1] unfolding ck .
  have "set (flattenJSON (JInt 2) ''buckets[1].value'') \<subseteq> set (flattenJSON doc '''')"
    using R3 [THEN conjunct2, THEN conjunct2, THEN mp, OF h3] unfolding ck .
  then have c7: "(''buckets[1].value'', JInt 2) \<in> set (flattenJSON doc '''')"
    unfolding f by simp
  from T5 [THEN mp, OF h3] have c8: "flattenJSON doc ''''
      = [(''buckets[0]'', JInt 1), (''buckets[1].value'', JInt 2), (''buckets[1].count'', JInt 3)]"
    unfolding l .
  from h1 c1 h2 h3 c2 c3 h4 h5 c4 c5 c6 c7 c8 show ?thesis
    unfolding b doc_def one_def kvs_def by (intro conjI)
qed

text \<open>
  Claim C10. With an empty JSON path the whole response body is decoded and
  flattened, and that flat map is returned whatever the configured filters are.
  The filters are applied only where a non-empty path selects an existing
  subtree; a path that selects nothing gives the empty map.
\<close>

theorem empty_path_skips_filters:
  "(JSONPath cfg = '''' \<longrightarrow>
      extractDataFromResponse unmarshal gjsonGet compile matchString cfg body
        = (case unmarshal body of
             None \<Rightarrow> Inl UnmarshalResponseFailed
           | Some data \<Rightarrow> Inr (flattenJSON data ''''))
      \<and> extractDataFromResponse unmarshal gjsonGet compile matchString
            (cfg\<lparr>Filters := fs\<rparr>) body
          = extractDataFromResponse unmarshal gjsonGet compile matchString cfg body)
   \<and> (JSONPath cfg \<noteq> '''' \<longrightarrow>
      extractDataFromResponse unmarshal gjsonGet compile matchString cfg body
        = (case gjsonGet body (JSONPath cfg) of
             None \<Rightarrow> Inr []
           | Some raw \<Rightarrow>
               (case unmarshal raw of
                  None \<Rightarrow> Inl UnmarshalExtractedFailed
                | Some extractedData \<Rightarrow>
                    Inr (applyFilters compile matchString (Filters cfg)
                           (flattenJSON extractedData '''')))))"
  by (simp add: extractDataFromResponse_def)

text \<open>In the example the body \<open>B\<close> decodes to \<open>{"a": 1, "b": 2}\<close>, the path \<open>p\<close>
  selects the whole body, and the only filter excludes the key \<open>a\<close>.\<close>

theorem empty_path_skips_filters_witness:
  "extractDataFromResponse
      (\<lambda>s. if s = ''B'' then Some (JObject [(''a'', JInt 1), (''b'', JInt 2 :: unit jvalue)])
            else None)
      (\<lambda>b p. if p = ''p'' then Some b else None)
      (\<lambda>p. Some p) (\<lambda>rx key. rx = key)
      \<lparr>ElasticsearchQuery = ''{}'', URLs = [''u''], ClusterNames = [''c''], AuthHeaders = [],
       AdditionalHeaders = [], JSONPath = '''',
       Filters = [\<lparr>Type = ''exclude'', Pattern = ''a''\<rparr>], StartTime = '''', EndTime = ''''\<rparr>
      ''B''
     = Inr [(''a'', JInt 1), (''b'', JInt 2)]
   \<and> extractDataFromResponse
      (\<lambda>s. if s = ''B'' then Some (JObject [(''a'', JInt 1), (''b'', JInt 2 :: unit jvalue)])
            else None)
      (\<lambda>b p. if p = ''p'' then Some b else None)
      (\<lambda>p. Some p) (\<lambda>rx key. rx = key)
      \<lparr>ElasticsearchQuery = ''{}'', URLs = [''u''], ClusterNames = [''c''], AuthHeaders = [],
       AdditionalHeaders = [], JSONPath = ''p'',
       Filters = [\<lparr>Type = ''exclude'', Pattern = ''a''\<rparr>], StartTime = '''', EndTime = ''''\<rparr>
      ''B''
     = Inr [(''b'', JInt 2)]"
proof -
  let ?u = "\<lambda>s. if s = ''B'' then Some (JObject [(''a'', JInt 1), (''b'', JInt 2 :: unit jvalue)])
                 else None"
  let ?g = "\<lambda>b p. if p = ''p'' then Some (b :: string) else None"
  let ?c = "\<lambda>p :: string. Some p"
  let ?m = "\<lambda>(rx :: string) key. rx = key"
  let ?cfg = "\<lambda>path. \<lparr>ElasticsearchQuery = ''{}'', URLs = [''u''], ClusterNames = [''c''],
       AuthHeaders = [], AdditionalHeaders = [], JSONPath = path,
       Filters = [\<lparr>Type = ''exclude'', Pattern = ''a''\<rparr>], StartTime = '''', EndTime = ''''\<rparr>"
  have fl: "flattenJSON (JObject [(''a'', JInt 1), (''b'', JInt 2 :: unit jvalue)]) ''''
              = [(''a'', JInt 1), (''b'', JInt 2)]"
    by code_simp
  have ap: "applyFilters ?c ?m [\<lparr>Type = ''exclude'', Pattern = ''a''\<rparr>]
              [(''a'', JInt 1), (''b'', JInt 2 :: unit jvalue)] = [(''b'', JInt 2)]"
    by (simp add: applyFilters_def matchesFilter_def assign_all_def)
  have "extractDataFromResponse ?u ?g ?c ?m (?cfg '''') ''B''
          = Inr [(''a'', JInt 1), (''b'', JInt 2)]"
    using empty_path_skips_filters [of "?cfg ''''" ?u ?g ?c ?m "''B''" "[]"] fl by simp
  moreover have "extractDataFromResponse ?u ?g ?c ?m (?cfg ''p'') ''B'' = Inr [(''b'', JInt 2)]"
    using empty_path_skips_filters [of "?cfg ''p''" ?u ?g ?c ?m "''B''" "[]"] fl ap by simp
  ultimately show ?thesis by simp
qed

subsection \<open>Fan-out over the endpoints\<close>




subsection \<open>Time-series grouping\<close>

lemma keyParts_in_range:
  "list_all (\<lambda>idx. 0 \<le> idx) idxs \<Longrightarrow>
   keyParts row idxs =
     Inr (map (\<lambda>idx. row ! nat idx) (filter (\<lambda>idx. idx < int (length row)) idxs))"
  by (induction idxs) (auto simp: index_at_def)

lemma groupRows_fold:
  assumes "nonNegativeColumns metric"
  shows "groupRows parseFloat metric rows g =
           Inr (fold (\<lambda>row g. assign (uniqueKey metric row)
                                 (lookup_list g (uniqueKey metric row)
                                    @ [sampleOf parseFloat metric row]) g)
                     (filter (keptRow parseFloat metric) rows) g)"
proof (induction rows arbitrary: g)
  case Nil
  show ?case by simp
next
  case (Cons row rows)
  from assms have V: "0 \<le> Value metric" and T: "0 \<le> Timestamp metric"
    and U: "list_all (\<lambda>idx. 0 \<le> idx) (UniqueFieldsIndex metric)"
    by (simp_all add: nonNegativeColumns_def)
  show ?case
  proof (cases "int (length row) \<le> Value metric \<or> int (length row) \<le> Timestamp metric")
    case True
    then have "\<not> keptRow parseFloat metric row" by (auto simp: keptRow_def)
    with True Cons.IH show ?thesis by simp
  next
    case False
    then have iv: "index_at row (Value metric) = Inr (row ! nat (Value metric))"
      and it: "index_at row (Timestamp metric) = Inr (row ! nat (Timestamp metric))"
      using V T by (simp_all add: index_at_def)
    have kp: "keyParts row (UniqueFieldsIndex metric) =
                Inr (map (\<lambda>idx. row ! nat idx)
                         (filter (\<lambda>idx. idx < int (length row)) (UniqueFieldsIndex metric)))"
      using U by (rule keyParts_in_range)
    show ?thesis
    proof (cases "parseFloat (row ! nat (Value metric))")
      case None
      then have "\<not> keptRow parseFloat metric row" by (simp add: keptRow_def)
      with False None iv kp Cons.IH show ?thesis by simp
    next
      case (Some v)
      show ?thesis
      proof (cases "ParseInt (row ! nat (Timestamp metric))")
        case None
        then have "\<not> keptRow parseFloat metric row" by (simp add: keptRow_def)
        with False None Some iv it kp Cons.IH show ?thesis by simp
      next
        case ts: (Some t)
        from False Some ts have k: "keptRow parseFloat metric row"
          by (auto simp: keptRow_def)
        from False Some ts iv it kp k Cons.IH show ?thesis
          by (simp add: uniqueKey_def sampleOf_def)
      qed
    qed
  qed
qed

lemma grouped_keys:
  "map fst (fold (\<lambda>x g. assign (k x) (lookup_list g (k x) @ [s x]) g) xs g) =
     fold (\<lambda>y seen. if y \<in> set seen then seen else seen @ [y]) (map k xs) (map fst g)"
  by (induction xs arbitrary: g) (simp_all add: keys_of_assign)

lemma grouped_values:
  "lookup_list (fold (\<lambda>x g. assign (k x) (lookup_list g (k x) @ [s x]) g) xs g) key =
     lookup_list g key @ map s (filter (\<lambda>x. k x = key) xs)"
  by (induction xs arbitrary: g) (simp_all add: lookup_list_assign)

lemma first_occurrences_fold:
  "distinct seen \<Longrightarrow>
   distinct (fold (\<lambda>y seen. if y \<in> set seen then seen else seen @ [y]) ys seen)
   \<and> set (fold (\<lambda>y seen. if y \<in> set seen then seen else seen @ [y]) ys seen) = set ys \<union> set seen"
  by (induction ys arbitrary: seen) auto

lemma alist_by_keys:
  "distinct (map fst g) \<Longrightarrow>
   map (\<lambda>grp. F (snd grp)) g = map (\<lambda>key. F (lookup_list g key)) (map fst g)"
proof -
  assume d: "distinct (map fst g)"
  have "lookup_list g (fst grp) = snd grp" if "grp \<in> set g" for grp
  proof -
    from that have "(fst grp, snd grp) \<in> set g" by simp
    with d have "map_of g (fst grp) = Some (snd grp)" by (rule map_of_is_SomeI)
    then show ?thesis by (simp add: lookup_list_def)
  qed
  then show ?thesis by (simp add: comp_def)
qed

lemma addDynamicLabels_fold:
  "list_all (\<lambda>label. 0 \<le> IndexInCSVData label) ls \<Longrightarrow>
   addDynamicLabels row ls lbls = Inr (fold (labelRule row) ls lbls)"
  by (induction ls arbitrary: lbls) (auto simp: labelRule_def index_at_def)

lemma emitSeries_map:
  assumes "list_all (\<lambda>label. 0 \<le> IndexInCSVData label) (Labels metric)"
    and "\<forall>grp \<in> set groups. snd grp \<noteq> []"
  shows "emitSeries streamLabels metric groups =
           Inr (map (\<lambda>grp. \<lparr>labels = seriesLabels streamLabels metric (snd (snd (hd (snd grp)))),
                             samples = map (\<lambda>sample. (fst (snd sample), fst sample)) (snd grp)\<rparr>)
                    groups)"
  using assms(2)
proof (induction groups)
  case Nil
  show ?case by simp
next
  case (Cons grp groups)
  from Cons.prems obtain firstSample others where g: "snd grp = firstSample # others"
    by (cases "snd grp") auto
  from Cons.prems have "\<forall>grp \<in> set groups. snd grp \<noteq> []" by simp
  from Cons.IH [OF this] g show ?case
    by (simp add: addDynamicLabels_fold [OF assms(1)] seriesLabels_def)
qed

lemma grouping_closed_form:
  assumes nn: "nonNegativeColumns metric"
  shows "createPrometheusTimeSeriesForMetric parseFloat streamLabels csvData metric
           = Inr (groupedSeries parseFloat streamLabels csvData metric)"
proof -
  let ?k = "uniqueKey metric"
  let ?s = "sampleOf parseFloat metric"
  let ?kept = "filter (keptRow parseFloat metric) csvData"
  let ?g = "fold (\<lambda>row g. assign (?k row) (lookup_list g (?k row) @ [?s row]) g) ?kept []"
  let ?F = "\<lambda>ss. \<lparr>labels = seriesLabels streamLabels metric (snd (snd (hd ss))),
                   samples = map (\<lambda>sample. (fst (snd sample), fst sample)) ss\<rparr>"
  have keys: "map fst ?g = firstOccurrences (map ?k ?kept)"
    using grouped_keys [of ?k ?s ?kept "[]"] by (simp add: firstOccurrences_def)
  have vals: "lookup_list ?g key = map ?s (filter (\<lambda>row. ?k row = key) ?kept)" for key
    using grouped_values [of ?k ?s ?kept "[]" key] by (simp add: lookup_list_def)
  have dist: "distinct (map fst ?g)"
    unfolding keys firstOccurrences_def
    using first_occurrences_fold [of "[]" "map ?k ?kept"] by simp
  have keyset: "set (map fst ?g) = ?k ` set ?kept"
    unfolding keys firstOccurrences_def
    using first_occurrences_fold [of "[]" "map ?k ?kept"] by simp
  have nonempty: "\<forall>grp \<in> set ?g. snd grp \<noteq> []"
  proof
    fix grp assume grp: "grp \<in> set ?g"
    then have "fst grp \<in> set (map fst ?g)" by simp
    with keyset obtain row where row: "row \<in> set ?kept" "?k row = fst grp" by auto
    from grp have "(fst grp, snd grp) \<in> set ?g" by simp
    with dist have "map_of ?g (fst grp) = Some (snd grp)" by (rule map_of_is_SomeI)
    then have "snd grp = lookup_list ?g (fst grp)" by (simp add: lookup_list_def)
    also have "\<dots> = map ?s (filter (\<lambda>r. ?k r = fst grp) ?kept)" by (rule vals)
    finally show "snd grp \<noteq> []" using row by (auto simp: filter_empty_conv)
  qed
  from nn have lab: "list_all (\<lambda>label. 0 \<le> IndexInCSVData label) (Labels metric)"
    by (simp add: nonNegativeColumns_def)
  have "createPrometheusTimeSeriesForMetric parseFloat streamLabels csvData metric
          = emitSeries streamLabels metric ?g"
    by (simp add: createPrometheusTimeSeriesForMetric_def groupRows_fold [OF nn])
  also have "\<dots> = Inr (map (\<lambda>grp. ?F (snd grp)) ?g)"
    using emitSeries_map [OF lab nonempty] by simp
  also have "map (\<lambda>grp. ?F (snd grp)) ?g = map (\<lambda>key. ?F (lookup_list ?g key)) (map fst ?g)"
    using dist by (rule alist_by_keys)
  also have "\<dots> = groupedSeries parseFloat streamLabels csvData metric"
  proof -
    have "?F (lookup_list ?g key) =
            \<lparr>labels = seriesLabels streamLabels metric (hd (filter (\<lambda>row. ?k row = key) ?kept)),
             samples = map (\<lambda>row. (the (ParseInt (row ! nat (Timestamp metric))),
                                     the (parseFloat (row ! nat (Value metric)))))
                           (filter (\<lambda>row. ?k row = key) ?kept)\<rparr>"
      if "key \<in> set (map fst ?g)" for key
    proof -
      from that keyset have "filter (\<lambda>row. ?k row = key) ?kept \<noteq> []"
        by (auto simp: filter_empty_conv)
      then show ?thesis
        unfolding vals by (simp add: hd_map sampleOf_def comp_def)
    qed
    then show ?thesis
      unfolding keys by (simp add: groupedSeries_def Let_def)
  qed
  finally show ?thesis .
qed

lemma length_firstOccurrences: "length (firstOccurrences ys) = card (set ys)"
proof -
  have "distinct (firstOccurrences ys)" and "set (firstOccurrences ys) = set ys"
    unfolding firstOccurrences_def using first_occurrences_fold [of "[]" ys] by simp_all
  then show ?thesis by (metis distinct_card)
qed

text \<open>
  Claim C8, as the code has it. For column indices that are not negative, the
  function returns the series of \<open>groupedSeries\<close>: a row of length at most
  \<open>max valueCol timestampCol\<close> is skipped, and so is a row whose value cell or
  timestamp cell does not parse; a remaining row belongs to the group whose
  key is the \<open>|\<close>-join of its cells at the unique-column indices that lie
  within the row; one series is emitted for each key, with the samples of its
  rows in the order of the rows; the labels of a series are \<open>__name__\<close> set to
  the metric name, then the label rules in order on the first row of the group
  (the static value when it is not empty, else the cell at the CSV column when
  the column lies within the row), then the labels configured on the stream,
  a later label replacing an earlier one of the same name.
\<close>

theorem grouping_with_stream_labels:
  assumes "nonNegativeColumns metric"
  shows "createPrometheusTimeSeriesForMetric parseFloat streamLabels csvData metric
           = Inr (groupedSeries parseFloat streamLabels csvData metric)
         \<and> length (groupedSeries parseFloat streamLabels csvData metric)
           = card (uniqueKey metric ` set (filter (keptRow parseFloat metric) csvData))"
proof
  show "createPrometheusTimeSeriesForMetric parseFloat streamLabels csvData metric
           = Inr (groupedSeries parseFloat streamLabels csvData metric)"
    using assms by (rule grouping_closed_form)
  show "length (groupedSeries parseFloat streamLabels csvData metric)
           = card (uniqueKey metric ` set (filter (keptRow parseFloat metric) csvData))"
    by (simp add: groupedSeries_def Let_def length_firstOccurrences)
qed

text \<open>The rows of the Prometheus guide (with whole-number values, \<open>ParseInt\<close>
  standing for the float parser), a row that is too short and a row whose
  timestamp does not parse; the stream carries the label \<open>pipeline\<close>.\<close>

theorem grouping_with_stream_labels_witness:
  "nonNegativeColumns
     \<lparr>Name = ''cpuusage'', UniqueFieldsIndex = [0], Value = 2, Timestamp = 1,
      Labels = [\<lparr>LabelName = ''LB_Name'', IndexInCSVData = 0, StaticValue = ''''\<rparr>,
                \<lparr>LabelName = ''job'', IndexInCSVData = 0, StaticValue = ''etl''\<rparr>]\<rparr>
   \<and> createPrometheusTimeSeriesForMetric ParseInt [(''pipeline'', ''p1'')]
       [[''alb1'', ''712223444'', ''23'', ''7802''], [''alb1'', ''713223444'', ''25'', ''7812''],
        [''alb2'', ''716223444'', ''21'', ''7842''], [''short''], [''alb2'', ''x'', ''1'', ''2'']]
       \<lparr>Name = ''cpuusage'', UniqueFieldsIndex = [0], Value = 2, Timestamp = 1,
        Labels = [\<lparr>LabelName = ''LB_Name'', IndexInCSVData = 0, StaticValue = ''''\<rparr>,
                  \<lparr>LabelName = ''job'', IndexInCSVData = 0, StaticValue = ''etl''\<rparr>]\<rparr>
     = Inr [\<lparr>labels = [(''__name__'', ''cpuusage''), (''LB_Name'', ''alb1''),
                       (''job'', ''etl''), (''pipeline'', ''p1'')],
             samples = [(712223444, 23), (713223444, 25)]\<rparr>,
            \<lparr>labels = [(''__name__'', ''cpuusage''), (''LB_Name'', ''alb2''),
                       (''job'', ''etl''), (''pipeline'', ''p1'')],
             samples = [(716223444, 21)]\<rparr>]"
proof -
  let ?m = "\<lparr>Name = ''cpuusage'', UniqueFieldsIndex = [0], Value = 2, Timestamp = 1,
      Labels = [\<lparr>LabelName = ''LB_Name'', IndexInCSVData = 0, StaticValue = ''''\<rparr>,
                \<lparr>LabelName = ''job'', IndexInCSVData = 0, StaticValue = ''etl''\<rparr>]\<rparr>"
  let ?rows = "[[''alb1'', ''712223444'', ''23'', ''7802''], [''alb1'', ''713223444'', ''25'', ''7812''],
        [''alb2'', ''716223444'', ''21'', ''7842''], [''short''], [''alb2'', ''x'', ''1'', ''2'']]"
  have nn: "nonNegativeColumns ?m" by (simp add: nonNegativeColumns_def)
  have ev: "groupedSeries ParseInt [(''pipeline'', ''p1'')] ?rows ?m
     = [\<lparr>labels = [(''__name__'', ''cpuusage''), (''LB_Name'', ''alb1''),
                    (''job'', ''etl''), (''pipeline'', ''p1'')],
          samples = [(712223444, 23), (713223444, 25)]\<rparr>,
        \<lparr>labels = [(''__name__'', ''cpuusage''), (''LB_Name'', ''alb2''),
                    (''job'', ''etl''), (''pipeline'', ''p1'')],
          samples = [(716223444, 21)]\<rparr>]"
    by code_simp
  from grouping_with_stream_labels [OF nn, of ParseInt "[(''pipeline'', ''p1'')]" ?rows]
  have "createPrometheusTimeSeriesForMetric ParseInt [(''pipeline'', ''p1'')] ?rows ?m
          = Inr (groupedSeries ParseInt [(''pipeline'', ''p1'')] ?rows ?m)"
    by (rule conjunct1)
  with nn ev show ?thesis by simp
qed

text \<open>
  Claim C8 as stated fails on the labels: the claim builds them from the label
  rules and \<open>__name__\<close> alone. With the labels \<open>__name__\<close> and \<open>pipeline\<close>
  configured on the stream, the emitted series carries \<open>pipeline\<close>, and its
  \<open>__name__\<close> is the stream's value, not the metric name \<open>cpuusage\<close>.
\<close>

theorem stream_labels_counterexample:
  "createPrometheusTimeSeriesForMetric ParseInt
       [(''__name__'', ''other''), (''pipeline'', ''p1'')]
       [[''alb1'', ''712223444'', ''23'', ''7802'']]
       \<lparr>Name = ''cpuusage'', UniqueFieldsIndex = [0], Value = 2, Timestamp = 1,
        Labels = [\<lparr>LabelName = ''LB_Name'', IndexInCSVData = 0, StaticValue = ''''\<rparr>,
                  \<lparr>LabelName = ''job'', IndexInCSVData = 0, StaticValue = ''etl''\<rparr>]\<rparr>
     = Inr [\<lparr>labels = [(''__name__'', ''other''), (''LB_Name'', ''alb1''),
                       (''job'', ''etl''), (''pipeline'', ''p1'')],
             samples = [(712223444, 23)]\<rparr>]
   \<and> [(''__name__'', ''other''), (''LB_Name'', ''alb1''), (''job'', ''etl''), (''pipeline'', ''p1'')]
       \<noteq> [(''__name__'', ''cpuusage''), (''LB_Name'', ''alb1''), (''job'', ''etl'')]"
  by code_simp

subsection \<open>Macro expander\<close>

lemma not_Contains_Cons:
  assumes "\<not> Contains (x # xs) sub"
  shows "\<not> HasPrefix (x # xs) sub" and "\<not> Contains xs sub"
proof -
  from assms have all: "\<forall>i \<in> set [0..<Suc (length (x # xs))]. \<not> HasPrefix (drop i (x # xs)) sub"
    by (simp add: Contains_def Index_def find_None_iff del: upt_Suc)
  have "0 \<in> set [0..<Suc (length (x # xs))]" by (simp del: upt_Suc)
  with all have "\<not> HasPrefix (drop 0 (x # xs)) sub" by blast
  then show "\<not> HasPrefix (x # xs) sub" by simp
  have "\<not> HasPrefix (drop i xs) sub" if "i \<in> set [0..<Suc (length xs)]" for i
  proof -
    from that have "Suc i \<in> set [0..<Suc (length (x # xs))]" by (simp del: upt_Suc)
    with all have "\<not> HasPrefix (drop (Suc i) (x # xs)) sub" by blast
    then show ?thesis by simp
  qed
  then show "\<not> Contains xs sub"
    by (simp add: Contains_def Index_def find_None_iff del: upt_Suc)
qed

lemma ReplaceAll_absent:
  "\<not> Contains s (c # cs) \<Longrightarrow> ReplaceAll s (c # cs) new = s"
proof (induction s)
  case Nil
  show ?case by simp
next
  case (Cons x xs)
  from not_Contains_Cons [OF Cons.prems] Cons.IH show ?case by simp
qed

lemma dropWhile_all: "list_all P ws \<Longrightarrow> dropWhile P (ws @ ys) = dropWhile P ys"
  by (induction ws) auto

lemma takeWhile_all: "list_all P ws \<Longrightarrow> takeWhile P (ws @ ys) = ws @ takeWhile P ys"
  by (induction ws) auto

lemma digit_not_space: "digit c \<Longrightarrow> \<not> space c"
  by (auto simp: digit_def space_def)

text \<open>The regular expression, as a grammar: \<open>NOW\<close>, white space, a sign, white
  space, one or more digits, white space, \<open>MIN\<close> or \<open>SEC\<close>.\<close>

lemma nowPattern_grammar:
  "nowPattern s = Some (operator, valueStr, unit) \<longleftrightarrow>
     (\<exists>ws1 ws2 ws3.
        s = ''NOW'' @ ws1 @ operator @ ws2 @ valueStr @ ws3 @ unit
        \<and> list_all space ws1 \<and> list_all space ws2 \<and> list_all space ws3
        \<and> (operator = ''+'' \<or> operator = ''-'')
        \<and> valueStr \<noteq> [] \<and> list_all digit valueStr
        \<and> (unit = ''MIN'' \<or> unit = ''SEC''))"
proof
  assume m: "nowPattern s = Some (operator, valueStr, unit)"
  let ?r1 = "dropWhile space (drop 3 s)"
  let ?r2 = "dropWhile space (tl ?r1)"
  let ?r3 = "dropWhile space (dropWhile digit ?r2)"
  from m have hp: "HasPrefix s ''NOW''"
    and r1: "?r1 \<noteq> []" "hd ?r1 = CHR ''+'' \<or> hd ?r1 = CHR ''-''"
    and ds: "takeWhile digit ?r2 \<noteq> []"
    and u: "?r3 = ''MIN'' \<or> ?r3 = ''SEC''"
    and res: "operator = [hd ?r1]" "valueStr = takeWhile digit ?r2" "unit = ?r3"
    by (auto simp: nowPattern_def Let_def split: if_splits)
  from hp have pre: "take 3 s = ''NOW''"
    by (simp add: HasPrefix_def numeral_3_eq_3)
  let ?ws1 = "takeWhile space (drop 3 s)"
  let ?ws2 = "takeWhile space (tl ?r1)"
  let ?ws3 = "takeWhile space (dropWhile digit ?r2)"
  have "s = take 3 s @ drop 3 s" by simp
  also have "drop 3 s = ?ws1 @ ?r1" by simp
  also have "?r1 = hd ?r1 # tl ?r1" using r1(1) by simp
  also have "tl ?r1 = ?ws2 @ ?r2" by simp
  also have "?r2 = takeWhile digit ?r2 @ dropWhile digit ?r2" by simp
  also have "dropWhile digit ?r2 = ?ws3 @ ?r3" by simp
  finally have "s = ''NOW'' @ ?ws1 @ operator @ ?ws2 @ valueStr @ ?ws3 @ unit"
    using pre res by simp
  moreover have "list_all space ?ws1" "list_all space ?ws2" "list_all space ?ws3"
    "list_all digit valueStr"
    unfolding res by (auto simp: list_all_iff dest: set_takeWhileD)
  moreover have "operator = ''+'' \<or> operator = ''-''" using r1(2) res(1) by auto
  ultimately show "\<exists>ws1 ws2 ws3.
        s = ''NOW'' @ ws1 @ operator @ ws2 @ valueStr @ ws3 @ unit
        \<and> list_all space ws1 \<and> list_all space ws2 \<and> list_all space ws3
        \<and> (operator = ''+'' \<or> operator = ''-'')
        \<and> valueStr \<noteq> [] \<and> list_all digit valueStr
        \<and> (unit = ''MIN'' \<or> unit = ''SEC'')"
    using ds u res by blast
next
  assume "\<exists>ws1 ws2 ws3.
        s = ''NOW'' @ ws1 @ operator @ ws2 @ valueStr @ ws3 @ unit
        \<and> list_all space ws1 \<and> list_all space ws2 \<and> list_all space ws3
        \<and> (operator = ''+'' \<or> operator = ''-'')
        \<and> valueStr \<noteq> [] \<and> list_all digit valueStr
        \<and> (unit = ''MIN'' \<or> unit = ''SEC'')"
  then obtain ws1 ws2 ws3 where s: "s = ''NOW'' @ ws1 @ operator @ ws2 @ valueStr @ ws3 @ unit"
    and ws: "list_all space ws1" "list_all space ws2" "list_all space ws3"
    and op: "operator = ''+'' \<or> operator = ''-''"
    and ds: "valueStr \<noteq> []" "list_all digit valueStr"
    and u: "unit = ''MIN'' \<or> unit = ''SEC''"
    by blast
  from op obtain c where c: "operator = [c]" "c = CHR ''+'' \<or> c = CHR ''-''" by auto
  then have cns: "\<not> space c" by (auto simp: space_def)
  from ds obtain d ds' where d: "valueStr = d # ds'" "digit d" by (cases valueStr) auto
  from u obtain k ks where k: "unit = k # ks" "\<not> space k" "\<not> digit k"
    by (auto simp: space_def digit_def)
  have pre: "HasPrefix s ''NOW''" by (simp add: s HasPrefix_def)
  have r1: "dropWhile space (drop 3 s) = c # ws2 @ valueStr @ ws3 @ unit"
    using dropWhile_all [OF ws(1)] cns by (simp add: s c)
  have r2: "dropWhile space (ws2 @ valueStr @ ws3 @ unit) = valueStr @ ws3 @ unit"
    using dropWhile_all [OF ws(2)] digit_not_space [OF d(2)] by (simp add: d(1))
  have nd: "takeWhile digit (ws3 @ unit) = []"
  proof (cases ws3)
    case Nil
    with k show ?thesis by simp
  next
    case (Cons w ws)
    with ws(3) have "space w" by simp
    then have "\<not> digit w" using digit_not_space by blast
    with Cons show ?thesis by simp
  qed
  have tk: "takeWhile digit (valueStr @ ws3 @ unit) = valueStr"
    using takeWhile_all [OF ds(2), of "ws3 @ unit"] nd by simp
  have dd: "dropWhile digit (ws3 @ unit) = ws3 @ unit"
    using nd by (metis takeWhile_dropWhile_id append_Nil)
  have dk: "dropWhile digit (valueStr @ ws3 @ unit) = ws3 @ unit"
    using dropWhile_all [OF ds(2), of "ws3 @ unit"] dd by simp
  have r3: "dropWhile space (ws3 @ unit) = unit"
    using dropWhile_all [OF ws(3)] k by simp
  show "nowPattern s = Some (operator, valueStr, unit)"
    unfolding nowPattern_def Let_def
    using pre c u ds(1) by (simp add: r1 r2 tk dk r3)
qed

lemma ParseInt_digits:
  assumes "ds \<noteq> []" "list_all digit ds"
  shows "ParseInt ds = (if decimal ds < 2 ^ 63 then Some (decimal ds) else None)"
proof -
  from assms obtain d ds' where "ds = d # ds'" "digit d" by (cases ds) auto
  then have "hd ds \<noteq> CHR ''-''" "hd ds \<noteq> CHR ''+''" by (auto simp: digit_def)
  with assms show ?thesis by (simp add: ParseInt_def Let_def)
qed

lemma parse_ok_iff:
  assumes "toUpper lib ''MIN'' = ''MIN''" and "toUpper lib ''SEC'' = ''SEC''"
  shows "isl (parseTimeExpression lib spec) \<longleftrightarrow> \<not> parsable lib spec"
proof (cases "toUpper lib (trimSpace lib spec) = ''NOW''")
  case True
  then show ?thesis by (simp add: parseTimeExpression_def parsable_def Let_def)
next
  case notNow: False
  show ?thesis
  proof (cases "nowPattern (toUpper lib (trimSpace lib spec))")
    case None
    with notNow show ?thesis
      by (auto simp: parseTimeExpression_def parsable_def Let_def split: option.splits)
  next
    case (Some m)
    obtain operator valueStr unit where m: "m = (operator, valueStr, unit)"
      by (cases m) auto
    from Some m nowPattern_grammar [of "toUpper lib (trimSpace lib spec)" operator valueStr unit]
    have ds: "valueStr \<noteq> []" "list_all digit valueStr"
      and u: "unit = ''MIN'' \<or> unit = ''SEC''"
      by auto
    from u assms have up: "toUpper lib unit = ''MIN'' \<or> toUpper lib unit = ''SEC''" by auto
    have at: "Atoi valueStr = (if decimal valueStr < 2 ^ 63 then Some (decimal valueStr) else None)"
      unfolding Atoi_def using ds by (rule ParseInt_digits)
    from notNow Some m up at show ?thesis
      by (auto simp: parseTimeExpression_def parsable_def Let_def)
  qed
qed

lemma parse_value:
  "\<not> isl (parseTimeExpression lib spec) \<Longrightarrow>
   parseTimeExpression lib spec = Inr (timeValue lib spec)"
  by (cases "parseTimeExpression lib spec") (simp_all add: timeValue_def)

text \<open>
  Claim C6, as the code has it. The three substitutions are made one after the
  other: every \<open>__CLUSTER__\<close> by the cluster name, then every \<open>__STARTTIME__\<close>
  and then every \<open>__ENDTIME__\<close> by the decimal form of the value of its time
  spec. An error is returned exactly when \<open>__STARTTIME__\<close> occurs in the query
  after the cluster substitution and the start spec is empty or not parsable,
  or \<open>__ENDTIME__\<close> occurs in the query after the cluster and start-time
  substitutions and the end spec is empty or not parsable. A spec is parsable
  when, trimmed, it is \<open>NOW\<close> in any letter case, or matches the offset grammar
  of \<open>nowPattern_grammar\<close> in any letter case with digits below \<open>2^63\<close>, or
  else is a decimal integer of the range of \<open>int64\<close>.
\<close>

theorem expand_error_iff:
  assumes "toUpper lib ''MIN'' = ''MIN''" and "toUpper lib ''SEC'' = ''SEC''"
  shows "(isl (SubstituteQuery lib startTime endTime query clusterName) \<longleftrightarrow>
            (Contains (afterCluster query clusterName) ''__STARTTIME__''
               \<and> (startTime = '''' \<or> \<not> parsable lib startTime))
            \<or> (Contains (afterStart lib startTime (afterCluster query clusterName)) ''__ENDTIME__''
               \<and> (endTime = '''' \<or> \<not> parsable lib endTime)))
         \<and> (isl (SubstituteQuery lib startTime endTime query clusterName)
            \<or> SubstituteQuery lib startTime endTime query clusterName
                = Inr (afterEnd lib endTime
                         (afterStart lib startTime (afterCluster query clusterName))))"
proof -
  let ?q1 = "afterCluster query clusterName"
  let ?q2 = "afterStart lib startTime ?q1"
  let ?badS = "startTime = '''' \<or> \<not> parsable lib startTime"
  let ?badE = "endTime = '''' \<or> \<not> parsable lib endTime"
  note pk = parse_ok_iff [OF assms]
  define E where "E q =
      (if Contains q ''__ENDTIME__''
       then (if endTime = '''' then Inl EndTimeNotConfigured
             else (case parseTimeExpression lib endTime of
                     Inl err \<Rightarrow> Inl (FailedToParseEndTime err)
                   | Inr v \<Rightarrow> Inr (ReplaceAll q ''__ENDTIME__'' (show_int v))))
       else Inr q)" for q
  define S where "S =
      (if Contains ?q1 ''__STARTTIME__''
       then (if startTime = '''' then Inl StartTimeNotConfigured
             else (case parseTimeExpression lib startTime of
                     Inl err \<Rightarrow> Inl (FailedToParseStartTime err)
                   | Inr v \<Rightarrow> Inr (ReplaceAll ?q1 ''__STARTTIME__'' (show_int v))))
       else Inr ?q1)"
  have sq: "SubstituteQuery lib startTime endTime query clusterName
              = (case S of Inl err \<Rightarrow> Inl err | Inr r \<Rightarrow> E r)"
    unfolding SubstituteQuery_def S_def E_def Let_def afterCluster_def ..
  have E_err: "isl (E q) \<longleftrightarrow> Contains q ''__ENDTIME__'' \<and> ?badE" for q
  proof (cases "parseTimeExpression lib endTime")
    case (Inl e)
    then have "\<not> parsable lib endTime" using pk [of endTime] by simp
    with Inl show ?thesis by (simp add: E_def)
  next
    case (Inr v)
    then have "parsable lib endTime" using pk [of endTime] by simp
    with Inr show ?thesis by (simp add: E_def)
  qed
  have E_ok: "E q = Inr (afterEnd lib endTime q)" if "\<not> isl (E q)" for q
  proof (cases "Contains q ''__ENDTIME__''")
    case False
    then show ?thesis by (simp add: E_def afterEnd_def ReplaceAll_absent)
  next
    case True
    with that E_err [of q] have ne: "endTime \<noteq> ''''" and "parsable lib endTime" by auto
    then have "\<not> isl (parseTimeExpression lib endTime)" using pk [of endTime] by simp
    then have "parseTimeExpression lib endTime = Inr (timeValue lib endTime)"
      by (rule parse_value)
    with True ne show ?thesis by (simp add: E_def afterEnd_def)
  qed
  have S_err: "isl S \<longleftrightarrow> Contains ?q1 ''__STARTTIME__'' \<and> ?badS"
  proof (cases "parseTimeExpression lib startTime")
    case (Inl e)
    then have "\<not> parsable lib startTime" using pk [of startTime] by simp
    with Inl show ?thesis by (simp add: S_def)
  next
    case (Inr v)
    then have "parsable lib startTime" using pk [of startTime] by simp
    with Inr show ?thesis by (simp add: S_def)
  qed
  have S_ok: "S = Inr ?q2" if "\<not> isl S"
  proof (cases "Contains ?q1 ''__STARTTIME__''")
    case False
    then show ?thesis by (simp add: S_def afterStart_def ReplaceAll_absent)
  next
    case True
    with that S_err have ne: "startTime \<noteq> ''''" and "parsable lib startTime" by auto
    then have "\<not> isl (parseTimeExpression lib startTime)" using pk [of startTime] by simp
    then have "parseTimeExpression lib startTime = Inr (timeValue lib startTime)"
      by (rule parse_value)
    with True ne show ?thesis by (simp add: S_def afterStart_def)
  qed
  show ?thesis
  proof (cases "isl S")
    case True
    then obtain e where "S = Inl e" by (cases S) auto
    then have "isl (SubstituteQuery lib startTime endTime query clusterName)"
      by (simp add: sq)
    with True S_err show ?thesis by blast
  next
    case False
    then have "S = Inr ?q2" by (rule S_ok)
    then have eq: "SubstituteQuery lib startTime endTime query clusterName = E ?q2"
      by (simp add: sq)
    from False S_err have nb: "\<not> (Contains ?q1 ''__STARTTIME__'' \<and> ?badS)" by blast
    show ?thesis
    proof (cases "isl (E ?q2)")
      case True
      with eq E_err [of ?q2] show ?thesis by simp
    next
      case notE: False
      from E_ok [OF notE] eq notE nb E_err [of ?q2] show ?thesis by simp
    qed
  qed
qed

text \<open>Scenario S3 at the clock value 1000000 ms, and an end spec that is not
  parsable.\<close>

theorem expand_error_iff_witness:
  "toUpper (ascii_lib 1000000) ''MIN'' = ''MIN''
   \<and> toUpper (ascii_lib 1000000) ''SEC'' = ''SEC''
   \<and> SubstituteQuery (ascii_lib 1000000) ''NOW-1MIN'' ''NOW''
        ''{gte:__STARTTIME__,lte:__ENDTIME__,c:__CLUSTER__}'' ''prod''
       = Inr ''{gte:940000,lte:1000000,c:prod}''
   \<and> isl (SubstituteQuery (ascii_lib 1000000) ''NOW-1MIN'' ''NOW-5hours''
        ''{gte:__STARTTIME__,lte:__ENDTIME__,c:__CLUSTER__}'' ''prod'')"
proof -
  let ?lib = "ascii_lib 1000000"
  let ?q = "''{gte:__STARTTIME__,lte:__ENDTIME__,c:__CLUSTER__}''"
  have m: "toUpper ?lib ''MIN'' = ''MIN''" by code_simp
  have s: "toUpper ?lib ''SEC'' = ''SEC''" by code_simp
  have p1: "parsable ?lib ''NOW-1MIN''" by code_simp
  have p2: "parsable ?lib ''NOW''" by code_simp
  have p3: "\<not> parsable ?lib ''NOW-5hours''" by code_simp
  have n1: "''NOW-1MIN'' \<noteq> ''''" and n2: "''NOW'' \<noteq> ''''" by simp_all
  have c2: "Contains (afterStart ?lib ''NOW-1MIN'' (afterCluster ?q ''prod'')) ''__ENDTIME__''"
    by code_simp
  have r: "afterEnd ?lib ''NOW'' (afterStart ?lib ''NOW-1MIN'' (afterCluster ?q ''prod''))
             = ''{gte:940000,lte:1000000,c:prod}''"
    by code_simp
  note good = expand_error_iff [OF m s, of "''NOW-1MIN''" "''NOW''" ?q "''prod''"]
  note bad = expand_error_iff [OF m s, of "''NOW-1MIN''" "''NOW-5hours''" ?q "''prod''"]
  from good p1 p2 n1 n2
  have nisl: "\<not> isl (SubstituteQuery ?lib ''NOW-1MIN'' ''NOW'' ?q ''prod'')" by blast
  with good
  have "SubstituteQuery ?lib ''NOW-1MIN'' ''NOW'' ?q ''prod''
          = Inr (afterEnd ?lib ''NOW'' (afterStart ?lib ''NOW-1MIN'' (afterCluster ?q ''prod'')))"
    by blast
  then have ok: "SubstituteQuery ?lib ''NOW-1MIN'' ''NOW'' ?q ''prod''
                  = Inr ''{gte:940000,lte:1000000,c:prod}''"
    by (simp only: r)
  from bad c2 p3
  have err: "isl (SubstituteQuery ?lib ''NOW-1MIN'' ''NOW-5hours'' ?q ''prod'')" by blast
  from m s ok err show ?thesis by blast
qed

text \<open>
  Claim C6 as stated fails in both directions of its "if and only if", and on
  its grammar. The template \<open>__CLUSTER__\<close> does not contain \<open>__STARTTIME__\<close>,
  yet with the cluster name \<open>__STARTTIME__\<close> and an empty start spec the
  expansion is an error. The template \<open>__CLUSTER__STARTTIME__\<close> contains
  \<open>__STARTTIME__\<close> and the start spec is empty, yet the expansion succeeds,
  the cluster substitution having consumed the macro. The spec
  \<open>NOW-99999999999999999999MIN\<close> is of the form NOW, sign, digits, MIN and
  is rejected.
\<close>

theorem expand_counterexample:
  "\<not> Contains ''__CLUSTER__'' ''__STARTTIME__''
   \<and> SubstituteQuery (ascii_lib 1000000) '''' ''NOW'' ''__CLUSTER__'' ''__STARTTIME__''
       = Inl StartTimeNotConfigured
   \<and> Contains ''__CLUSTER__STARTTIME__'' ''__STARTTIME__''
   \<and> SubstituteQuery (ascii_lib 1000000) '''' ''NOW'' ''__CLUSTER__STARTTIME__'' ''prod''
       = Inr ''prodSTARTTIME__''
   \<and> nowPattern ''NOW-99999999999999999999MIN''
       = Some (''-'', ''99999999999999999999'', ''MIN'')
   \<and> parseTimeExpression (ascii_lib 1000000) ''NOW-99999999999999999999MIN''
       = Inl InvalidNumericValue"
  by code_simp

end
